theory Spec2Isabelle
  imports Complex_Main "HOL-Library.Product_Lexorder" "HOL-Library.Multiset"
begin

section \<open>Exceptions, configuration and the observable world\<close>

text \<open>
  The Python exceptions that the modelled code can raise or let through. The first four
  are the classes listed in the \<^verbatim>\<open>retry_if_exception_type\<close> tuple of \<^verbatim>\<open>utils/oai.py\<close>;
  \<open>RetryError\<close> is what tenacity raises when \<^verbatim>\<open>stop_after_attempt\<close> ends the loop (the
  decorator is built without \<^verbatim>\<open>reraise=True\<close>, so the last exception is wrapped);
  \<open>OtherError\<close> stands for any exception outside the retry tuple.
\<close>

datatype exn =
    APIError
  | APIConnectionError
  | RateLimitError
  | Timeout
  | RetryError exn
  | IndexError
  | ValueError
  | UnboundLocalError
  | OtherError string

text \<open>
  The two environment variables read by \<^verbatim>\<open>utils/oai.py\<close>:
  \<^verbatim>\<open>int(os.getenv("PUBLANG_RETRY_ATTEMPTS", 50))\<close> and
  \<^verbatim>\<open>os.getenv("PUBLANG_WARN_ON_FAILURE", False)\<close> (\<open>None\<close> when the variable is unset).
\<close>

record config =
  retry_attempts :: int
  warn_on_failure :: "string option"

text \<open>
  What the outside can observe of a run: how many requests were issued to the provider
  (\<^verbatim>\<open>client.embeddings.create\<close>), how many times \<^verbatim>\<open>get_openai_embedding\<close> was entered,
  and the warnings emitted by \<^verbatim>\<open>warnings.warn\<close>, oldest first.
\<close>

record world =
  provider_calls :: nat
  embedding_calls :: nat
  warnings :: "exn list"

text \<open>
  A remote callable is described by the outcome of its \<open>i\<close>-th invocation (counted from
  0 over the whole run): it either raises or returns. The provider takes the input text
  and the model name as well. Waiting times (the random exponential back-off) are not
  part of the model: they change no value and no count.
\<close>

type_synonym 'v provider = "nat \<Rightarrow> string \<Rightarrow> string \<Rightarrow> exn + 'v"

definition remote_call :: "(nat \<Rightarrow> exn + 'a) \<Rightarrow> world \<Rightarrow> (exn + 'a) \<times> world" where
  "remote_call script w =
     (script (provider_calls w), w\<lparr>provider_calls := Suc (provider_calls w)\<rparr>)"

definition embeddings_create ::
  "'v provider \<Rightarrow> string \<Rightarrow> string \<Rightarrow> world \<Rightarrow> (exn + 'v) \<times> world" where
  "embeddings_create client input model = remote_call (\<lambda>i. client i input model)"

section \<open>utils/oai.py: the retry policy and the embedding client\<close>

definition retry_if_exception_type :: "exn \<Rightarrow> bool" where
  "retry_if_exception_type e =
     (e = APIError \<or> e = APIConnectionError \<or> e = RateLimitError \<or> e = Timeout)"

text \<open>
  The loop of the tenacity decorator \<^verbatim>\<open>retry(retry=..., wait=..., stop=stop_after_attempt(n))\<close>
  around \<open>func\<close>: \<open>attempt\<close> is tenacity's \<^verbatim>\<open>attempt_number\<close>, starting at 1. A returned
  value or an exception outside the tuple leaves the loop at once; a retryable exception
  stops the loop with \<open>RetryError\<close> once \<open>attempt \<ge> n\<close>, and otherwise the call is made
  again.
\<close>

function retry_openai ::
  "int \<Rightarrow> (world \<Rightarrow> (exn + 'a) \<times> world) \<Rightarrow> nat \<Rightarrow> world \<Rightarrow> (exn + 'a) \<times> world" where
  "retry_openai n func attempt w =
     (case func w of
        (Inr v, w') \<Rightarrow> (Inr v, w')
      | (Inl e, w') \<Rightarrow>
          if \<not> retry_if_exception_type e then (Inl e, w')
          else if n \<le> int attempt then (Inl (RetryError e), w')
          else retry_openai n func (Suc attempt) w')"
  by pat_completeness auto
termination
  by (relation "measure (\<lambda>(n, func, attempt, w). nat (n - int attempt))") auto

declare retry_openai.simps [simp del]

text \<open>
  \<^verbatim>\<open>reexecutor\<close> is the plain call \<^verbatim>\<open>func(*args, **kwargs)\<close>, rebound to its decorated
  version when \<^verbatim>\<open>retry_attempts > 1\<close>.
\<close>

definition reexecutor ::
  "int \<Rightarrow> (world \<Rightarrow> (exn + 'a) \<times> world) \<Rightarrow> world \<Rightarrow> (exn + 'a) \<times> world" where
  "reexecutor attempts func w =
     (if attempts > 1 then retry_openai attempts func 1 w else func w)"

text \<open>Python truthiness of \<^verbatim>\<open>os.getenv(name, False)\<close>: unset and the empty string are false.\<close>

definition truthy :: "string option \<Rightarrow> bool" where
  "truthy v = (case v of None \<Rightarrow> False | Some s \<Rightarrow> s \<noteq> [])"

text \<open>
  \<^verbatim>\<open>get_openai_embedding(input, model, client)\<close>. The client is a parameter (the default
  construction \<^verbatim>\<open>openai.OpenAI()\<close> is not modelled), and the provider's reply is taken to
  be the embedding \<^verbatim>\<open>resp.data[0].embedding\<close> itself. The result \<open>Inr None\<close> is Python's
  \<^verbatim>\<open>return None\<close>.
\<close>

definition get_openai_embedding ::
  "config \<Rightarrow> 'v provider \<Rightarrow> string \<Rightarrow> string \<Rightarrow> world \<Rightarrow> (exn + 'v option) \<times> world" where
  "get_openai_embedding cfg client input model w0 =
     (let w = w0\<lparr>embedding_calls := Suc (embedding_calls w0)\<rparr> in
      case reexecutor (retry_attempts cfg) (embeddings_create client input model) w of
        (Inl e, w') \<Rightarrow>
          if truthy (warn_on_failure cfg)
          then (Inr None, w'\<lparr>warnings := warnings w' @ [e]\<rparr>)
          else (Inl e, w')
      | (Inr resp, w') \<Rightarrow> (Inr (Some resp), w'))"

section \<open>search: ranking\<close>

text \<open>
  \<^verbatim>\<open>_rank_numbers\<close> (the same text in \<^verbatim>\<open>search/query.py\<close> and \<^verbatim>\<open>search/embed.py\<close>). Numbers
  are elements of a linear order; Python compares the pairs \<^verbatim>\<open>(num, i)\<close> lexicographically,
  which is the order of \<open>Product_Lexorder\<close>, and \<^verbatim>\<open>sorted\<close> is a stable sort. A NaN, which
  is outside every linear order, is not a number of this model. The loop writes
  \<^verbatim>\<open>ranks[index] = rank\<close>; an index outside the list raises \<open>IndexError\<close>.
\<close>

fun assign_ranks :: "(nat \<times> ('a \<times> nat)) list \<Rightarrow> nat list \<Rightarrow> exn + nat list" where
  "assign_ranks [] ranks = Inr ranks"
| "assign_ranks ((rank, (num, index)) # rest) ranks =
     (if index < length ranks then assign_ranks rest (ranks[index := rank])
      else Inl IndexError)"

definition rank_numbers :: "('a::linorder) list \<Rightarrow> exn + nat list" where
  "rank_numbers numbers =
     (let ranked_numbers = sort (map (\<lambda>(i, num). (num, i)) (List.enumerate 0 numbers));
          ranks = replicate (length numbers) 0
      in assign_ranks (List.enumerate 0 ranked_numbers) ranks)"

section \<open>search: the embedded-chunk table and the distance computation\<close>

text \<open>
  One row of the embedded-chunk table (the columns the code reads). The embedding is
  \<open>None\<close> when \<^verbatim>\<open>get_openai_embedding\<close> returned \<^verbatim>\<open>None\<close> for the chunk. A table is the
  list of its rows in order; \<^verbatim>\<open>pmcid\<close> is never null.
\<close>

record 'v chunk =
  pmcid :: string
  content :: string
  start_char :: int
  end_char :: int
  embedding :: "'v option"

text \<open>One row of the returned table: the four copied columns, then \<^verbatim>\<open>distance\<close> and \<^verbatim>\<open>rank\<close>.\<close>

record 'd ranked_row =
  row_pmcid :: string
  row_content :: string
  row_start_char :: int
  row_end_char :: int
  distance :: 'd
  rank :: nat

text \<open>
  \<^verbatim>\<open>np.array(embeddings)\<close> on the list of a group's embeddings. The vectors are abstract;
  what the model keeps is that a list mixing vectors and \<^verbatim>\<open>None\<close> has no common shape and
  is refused with \<open>ValueError\<close> (numpy 1.24 and later), while a list of vectors only, or of
  \<^verbatim>\<open>None\<close> only, becomes an array.
\<close>

definition np_array :: "'v option list \<Rightarrow> exn + 'v option list" where
  "np_array embeddings =
     (if None \<in> set embeddings \<and> list_ex (\<lambda>x. x \<noteq> None) embeddings then Inl ValueError
      else Inr embeddings)"

text \<open>
  \<^verbatim>\<open>euclidean_distances(embeddings, np.array(query_embedding).reshape(1, -1), squared=True)\<close>
  and \<^verbatim>\<open>cosine_distances\<close> of scikit-learn. The metric on two vectors is a parameter
  (the numeric library is not part of the repository); distances live in any linear
  order. What the model keeps of the library is its input validation: an empty array
  is one-dimensional, and an array of \<^verbatim>\<open>None\<close>, or \<^verbatim>\<open>None\<close> as the query embedding, is not
  a numeric matrix; all are rejected with an exception, written \<open>ValueError\<close> here.
\<close>

definition pairwise_distances ::
  "('v \<Rightarrow> 'v \<Rightarrow> 'd) \<Rightarrow> 'v option list \<Rightarrow> 'v option \<Rightarrow> exn + 'd list" where
  "pairwise_distances metric embeddings query_embedding =
     (if embeddings = [] then Inl ValueError
      else case (those embeddings, query_embedding) of
             (Some X, Some y) \<Rightarrow> Inr (map (\<lambda>x. metric x y) X)
           | _ \<Rightarrow> Inl ValueError)"

text \<open>
  \<^verbatim>\<open>embeddings_df.groupby("pmcid", sort=False)\<close>: the keys in order of first occurrence,
  each with its rows in their original order.
\<close>

fun unique :: "'a list \<Rightarrow> 'a list" where
  "unique [] = []"
| "unique (x # xs) = x # unique (filter (\<lambda>y. y \<noteq> x) xs)"

definition groupby_pmcid :: "'v chunk list \<Rightarrow> (string \<times> 'v chunk list) list" where
  "groupby_pmcid df = map (\<lambda>k. (k, filter (\<lambda>r. pmcid r = k) df)) (unique (map pmcid df))"

text \<open>A list comprehension, or a loop of \<^verbatim>\<open>results.append\<close>: the first exception ends it.\<close>

fun collect :: "('a \<Rightarrow> exn + 'b) \<Rightarrow> 'a list \<Rightarrow> exn + 'b list" where
  "collect f [] = Inr []"
| "collect f (x # xs) =
     (case f x of
        Inl e \<Rightarrow> Inl e
      | Inr y \<Rightarrow> (case collect f xs of Inl e \<Rightarrow> Inl e | Inr ys \<Rightarrow> Inr (y # ys)))"

text \<open>
  \<^verbatim>\<open>distances, ranks = zip(*results)\<close>: with no group at all the unpacking of an empty
  \<^verbatim>\<open>zip\<close> into two names raises \<open>ValueError\<close>.
\<close>

definition unzip_results ::
  "('d list \<times> nat list) list \<Rightarrow> exn + ('d list list \<times> nat list list)" where
  "unzip_results results =
     (if results = [] then Inl ValueError else Inr (map fst results, map snd results))"

text \<open>
  The copy of the four columns and the two column assignments
  \<^verbatim>\<open>ranks_df["distance"] = np.concatenate(distances)\<close> and
  \<^verbatim>\<open>ranks_df["rank"] = np.concatenate(ranks)\<close>: an array is assigned by position, and an
  array of another length than the table raises \<open>ValueError\<close>.
\<close>

definition make_row :: "'v chunk \<Rightarrow> 'd \<Rightarrow> nat \<Rightarrow> 'd ranked_row" where
  "make_row c d r =
     \<lparr>row_pmcid = pmcid c, row_content = content c, row_start_char = start_char c,
      row_end_char = end_char c, distance = d, rank = r\<rparr>"

definition assemble :: "'v chunk list \<Rightarrow> 'd list \<Rightarrow> nat list \<Rightarrow> exn + 'd ranked_row list" where
  "assemble df distances ranks =
     (if length distances \<noteq> length df \<or> length ranks \<noteq> length df then Inl ValueError
      else Inr (map (\<lambda>(c, d, r). make_row c d r) (zip df (zip distances ranks))))"

section \<open>search/embed.py: the query engine\<close>

text \<open>\<^verbatim>\<open>query_embeddings(embeddings, query_embedding)\<close> of \<^verbatim>\<open>search/embed.py\<close>.\<close>

definition embed_query_embeddings ::
  "('v \<Rightarrow> 'v \<Rightarrow> 'd::linorder) \<Rightarrow> 'v option list \<Rightarrow> 'v option \<Rightarrow> exn + ('d list \<times> nat list)" where
  "embed_query_embeddings euclidean embeddings query_embedding =
     (case np_array embeddings of
        Inl e \<Rightarrow> Inl e
      | Inr X \<Rightarrow>
          (case pairwise_distances euclidean X query_embedding of
             Inl e \<Rightarrow> Inl e
           | Inr distances \<Rightarrow>
               (case rank_numbers distances of
                  Inl e \<Rightarrow> Inl e
                | Inr ranks \<Rightarrow> Inr (distances, ranks))))"

text \<open>
  \<^verbatim>\<open>ranks_df.sort_values("distance", inplace=True)\<close>. pandas sorts with its default
  quicksort, which is not stable: the rows come out in ascending distance, and the order
  among rows of equal distance is not fixed by the table. That order is the parameter
  \<open>tie_break\<close>: of two rows with the same distance, at the positions \<open>i\<close> and \<open>j\<close> of the
  unsorted table, the one with the smaller \<open>tie_break\<close> value comes first. Every table
  that holds the same rows in ascending distance is obtained for some \<open>tie_break\<close>
  (\<open>sort_values_covers_every_order\<close> below).
\<close>

definition sort_values :: "(nat \<Rightarrow> nat) \<Rightarrow> ('d::linorder) ranked_row list \<Rightarrow> 'd ranked_row list" where
  "sort_values tie_break ranks_df =
     map snd (sort_key (\<lambda>(i, row). (distance row, tie_break i)) (List.enumerate 0 ranks_df))"

text \<open>
  \<^verbatim>\<open>get_chunk_query_distance(embeddings_df, query, client, model)\<close> of \<^verbatim>\<open>search/embed.py\<close>,
  with the tie order of the final sort as one more argument.
\<close>

definition embed_get_chunk_query_distance ::
  "config \<Rightarrow> 'v provider \<Rightarrow> ('v \<Rightarrow> 'v \<Rightarrow> 'd::linorder) \<Rightarrow> (nat \<Rightarrow> nat) \<Rightarrow> 'v chunk list \<Rightarrow>
   string \<Rightarrow> string \<Rightarrow> world \<Rightarrow> (exn + 'd ranked_row list) \<times> world" where
  "embed_get_chunk_query_distance cfg client euclidean tie_break embeddings_df query model w =
     (case get_openai_embedding cfg client query model w of
        (Inl e, w') \<Rightarrow> (Inl e, w')
      | (Inr query_embedding, w') \<Rightarrow>
          (case collect (\<lambda>(_, sub_df).
                  embed_query_embeddings euclidean (map embedding sub_df) query_embedding)
                (groupby_pmcid embeddings_df) of
             Inl e \<Rightarrow> (Inl e, w')
           | Inr results \<Rightarrow>
               (case unzip_results results of
                  Inl e \<Rightarrow> (Inl e, w')
                | Inr (distances, ranks) \<Rightarrow>
                    (case assemble embeddings_df (concat distances) (concat ranks) of
                       Inl e \<Rightarrow> (Inl e, w')
                     | Inr ranks_df \<Rightarrow> (Inr (sort_values tie_break ranks_df), w')))))"

section \<open>search/query.py: the query engine\<close>

text \<open>
  \<^verbatim>\<open>query_embeddings(embeddings, query, distance_metric)\<close> of \<^verbatim>\<open>search/query.py\<close>: the
  embeddings are made an array, then the query is embedded (with the default model), and
  only then the metric is looked at. With a metric that is neither of the two names no
  branch binds \<^verbatim>\<open>distances\<close>, and the \<^verbatim>\<open>return\<close> raises \<open>UnboundLocalError\<close>.
\<close>

definition query_query_embeddings ::
  "config \<Rightarrow> 'v provider \<Rightarrow> ('v \<Rightarrow> 'v \<Rightarrow> 'd::linorder) \<Rightarrow> ('v \<Rightarrow> 'v \<Rightarrow> 'd) \<Rightarrow>
   'v option list \<Rightarrow> string \<Rightarrow> string \<Rightarrow> world \<Rightarrow> (exn + ('d list \<times> nat list)) \<times> world" where
  "query_query_embeddings cfg client euclidean cosine embeddings query distance_metric w =
     (case np_array embeddings of
        Inl e \<Rightarrow> (Inl e, w)
      | Inr X \<Rightarrow>
          (case get_openai_embedding cfg client query ''text-embedding-ada-002'' w of
             (Inl e, w') \<Rightarrow> (Inl e, w')
           | (Inr query_embedding, w') \<Rightarrow>
               (case (if distance_metric = ''euclidean''
                      then pairwise_distances euclidean X query_embedding
                      else if distance_metric = ''cosine''
                      then pairwise_distances cosine X query_embedding
                      else Inl UnboundLocalError) of
                  Inl e \<Rightarrow> (Inl e, w')
                | Inr distances \<Rightarrow>
                    (case rank_numbers distances of
                       Inl e \<Rightarrow> (Inl e, w')
                     | Inr ranks \<Rightarrow> (Inr (distances, ranks), w')))))"

text \<open>
  The submitted tasks of \<^verbatim>\<open>search/query.py\<close>, run one after the other in submission order,
  as the pool does with its default \<^verbatim>\<open>num_workers = 1\<close>. Every task is run, also after one
  has failed; each outcome is kept in its future.
\<close>

fun run_in_order :: "('a \<Rightarrow> world \<Rightarrow> 'r \<times> world) \<Rightarrow> 'a list \<Rightarrow> world \<Rightarrow> 'r list \<times> world" where
  "run_in_order task [] w = ([], w)"
| "run_in_order task (x # xs) w =
     (case task x w of (r, w') \<Rightarrow>
        (case run_in_order task xs w' of (rs, w'') \<Rightarrow> (r # rs, w'')))"

text \<open>
  \<^verbatim>\<open>get_chunk_query_distance(embeddings_df, query, num_workers)\<close> of \<^verbatim>\<open>search/query.py\<close>.
  \<^verbatim>\<open>ThreadPoolExecutor\<close> refuses \<^verbatim>\<open>max_workers <= 0\<close> with \<open>ValueError\<close>. The metric is
  never passed on, so it is always the default \<^verbatim>\<open>"euclidean"\<close>. The table is returned as
  assembled.
\<close>

definition query_get_chunk_query_distance ::
  "config \<Rightarrow> 'v provider \<Rightarrow> ('v \<Rightarrow> 'v \<Rightarrow> 'd::linorder) \<Rightarrow> ('v \<Rightarrow> 'v \<Rightarrow> 'd) \<Rightarrow>
   'v chunk list \<Rightarrow> string \<Rightarrow> int \<Rightarrow> world \<Rightarrow> (exn + 'd ranked_row list) \<times> world" where
  "query_get_chunk_query_distance cfg client euclidean cosine embeddings_df query num_workers w =
     (if num_workers \<le> 0 then (Inl ValueError, w)
      else case run_in_order (\<lambda>(_, sub_df).
                  query_query_embeddings cfg client euclidean cosine (map embedding sub_df)
                    query ''euclidean'')
                (groupby_pmcid embeddings_df) w of
        (futures, w') \<Rightarrow>
          (case collect (\<lambda>future. future) futures of
             Inl e \<Rightarrow> (Inl e, w')
           | Inr results \<Rightarrow>
               (case unzip_results results of
                  Inl e \<Rightarrow> (Inl e, w')
                | Inr (distances, ranks) \<Rightarrow>
                    (case assemble embeddings_df (concat distances) (concat ranks) of
                       Inl e \<Rightarrow> (Inl e, w')
                     | Inr ranks_df \<Rightarrow> (Inr ranks_df, w')))))"

section \<open>search/embed.py: the embedding pipeline\<close>

text \<open>
  An input article (the keys \<^verbatim>\<open>pmcid\<close> and \<^verbatim>\<open>text\<close>) and a chunk as the chunker returns
  it. The chunker \<^verbatim>\<open>split_pmc_document\<close> is not among the sources; it is a parameter.
\<close>

record article =
  article_pmcid :: string
  article_text :: string

record span =
  span_content :: string
  span_start_char :: int
  span_end_char :: int

text \<open>The loop over the chunks of one document in \<^verbatim>\<open>_split_embed\<close>.\<close>

fun embed_chunks ::
  "config \<Rightarrow> 'v provider \<Rightarrow> string \<Rightarrow> string \<Rightarrow> span list \<Rightarrow> world \<Rightarrow>
   (exn + 'v chunk list) \<times> world" where
  "embed_chunks cfg client model doc_id [] w = (Inr [], w)"
| "embed_chunks cfg client model doc_id (chunk # rest) w =
     (case get_openai_embedding cfg client (span_content chunk) model w of
        (Inl e, w') \<Rightarrow> (Inl e, w')
      | (Inr res, w') \<Rightarrow>
          (case embed_chunks cfg client model doc_id rest w' of
             (Inl e, w'') \<Rightarrow> (Inl e, w'')
           | (Inr embedded, w'') \<Rightarrow>
               (Inr (\<lparr>pmcid = doc_id, content = span_content chunk,
                       start_char = span_start_char chunk, end_char = span_end_char chunk,
                       embedding = res\<rparr> # embedded), w'')))"

definition split_embed ::
  "(string \<Rightarrow> int \<Rightarrow> int \<Rightarrow> span list) \<Rightarrow> config \<Rightarrow> 'v provider \<Rightarrow> article \<Rightarrow> string \<Rightarrow>
   int \<Rightarrow> int \<Rightarrow> world \<Rightarrow> (exn + 'v chunk list) \<times> world" where
  "split_embed split_pmc_document cfg client article model min_chars max_chars w =
     (let split_doc = split_pmc_document (article_text article) min_chars max_chars in
      if split_doc \<noteq> [] then embed_chunks cfg client model (article_pmcid article) split_doc w
      else (Inr [], w))"

text \<open>
  The thread pool. \<open>order\<close> lists task indices in the order in which the workers run
  them; a task runs once, as a whole, and its outcome (a value or an exception) is
  stored in its future. An index that names no task, or a task already run, is skipped.
\<close>

fun run_pool ::
  "(world \<Rightarrow> 'r \<times> world) list \<Rightarrow> nat list \<Rightarrow> 'r option list \<Rightarrow> world \<Rightarrow>
   'r option list \<times> world" where
  "run_pool tasks [] futures w = (futures, w)"
| "run_pool tasks (i # order) futures w =
     (if i < length tasks \<and> i < length futures \<and> futures ! i = None
      then (case (tasks ! i) w of (r, w') \<Rightarrow> run_pool tasks order (futures[i := Some r]) w')
      else run_pool tasks order futures w)"

text \<open>
  The loop \<^verbatim>\<open>for future in futures: results += future.result()\<close>, over the futures in
  submission order. \<^verbatim>\<open>result()\<close> re-raises the task's exception; on a future whose task
  never ran it would block for ever, which is the value \<open>None\<close>.
\<close>

fun gather_results :: "(exn + 'a list) option list \<Rightarrow> (exn + 'a list) option" where
  "gather_results [] = Some (Inr [])"
| "gather_results (None # futures) = None"
| "gather_results (Some (Inl e) # futures) = Some (Inl e)"
| "gather_results (Some (Inr result) # futures) =
     (case gather_results futures of
        None \<Rightarrow> None
      | Some (Inl e) \<Rightarrow> Some (Inl e)
      | Some (Inr results) \<Rightarrow> Some (Inr (result @ results)))"

text \<open>
  \<^verbatim>\<open>embed_pmc_articles(articles, model, min_chars, max_chars, num_workers, client)\<close>, with
  the order in which the pool runs the tasks as one more argument.
\<close>

definition embed_pmc_articles ::
  "(string \<Rightarrow> int \<Rightarrow> int \<Rightarrow> span list) \<Rightarrow> config \<Rightarrow> 'v provider \<Rightarrow> article list \<Rightarrow> string \<Rightarrow>
   int \<Rightarrow> int \<Rightarrow> int \<Rightarrow> nat list \<Rightarrow> world \<Rightarrow> (exn + 'v chunk list) option \<times> world" where
  "embed_pmc_articles split_pmc_document cfg client articles model min_chars max_chars
       num_workers order w =
     (if num_workers \<le> 0 then (Some (Inl ValueError), w)
      else case run_pool
                  (map (\<lambda>article. split_embed split_pmc_document cfg client article model
                          min_chars max_chars) articles)
                  order (replicate (length articles) None) w of
             (futures, w') \<Rightarrow> (gather_results futures, w'))"

section \<open>Notions used to state the properties\<close>

text \<open>
  The orders in which a pool of \<open>num_workers\<close> workers can run \<open>n\<close> tasks: every task
  is run exactly once, and a single worker takes them in submission order.
\<close>

definition pool_order :: "int \<Rightarrow> nat \<Rightarrow> nat list \<Rightarrow> bool" where
  "pool_order num_workers n order =
     (set order = {..<n} \<and> distinct order \<and> (num_workers = 1 \<longrightarrow> order = [0..<n]))"

text \<open>All rows that share a document id are next to each other.\<close>

definition contiguous :: "'k list \<Rightarrow> bool" where
  "contiguous ks = distinct (remdups_adj ks)"


section \<open>Example inputs\<close>

text \<open>
  Concrete inputs for the instances below: the default configuration, a world in which
  nothing has happened yet, one-dimensional integer embeddings with the squared
  difference as metric, and a provider that embeds every text at the origin.
\<close>

definition default_config :: config where
  "default_config = \<lparr>retry_attempts = 50, warn_on_failure = None\<rparr>"

definition fresh_world :: world where
  "fresh_world = \<lparr>provider_calls = 0, embedding_calls = 0, warnings = []\<rparr>"

definition origin_client :: "int provider" where
  "origin_client = (\<lambda>i input model. Inr 0)"

definition rate_limited_client :: "int provider" where
  "rate_limited_client = (\<lambda>i input model. Inl RateLimitError)"

definition squared_difference :: "int \<Rightarrow> int \<Rightarrow> int" where
  "squared_difference x y = (x - y) * (x - y)"

definition example_chunk :: "string \<Rightarrow> string \<Rightarrow> int option \<Rightarrow> int chunk" where
  "example_chunk doc_id txt e =
     \<lparr>pmcid = doc_id, content = txt, start_char = 0, end_char = int (length txt), embedding = e\<rparr>"

definition example_row :: "string \<Rightarrow> string \<Rightarrow> int \<Rightarrow> nat \<Rightarrow> int ranked_row" where
  "example_row doc_id txt d r =
     \<lparr>row_pmcid = doc_id, row_content = txt, row_start_char = 0,
      row_end_char = int (length txt), distance = d, rank = r\<rparr>"

definition two_documents :: "int chunk list" where
  "two_documents =
     [example_chunk ''A'' ''a0'' (Some 3), example_chunk ''A'' ''a1'' (Some 1),
      example_chunk ''B'' ''b0'' (Some 2), example_chunk ''B'' ''b1'' (Some 0)]"

definition interleaved_documents :: "int chunk list" where
  "interleaved_documents =
     [example_chunk ''A'' ''a0'' (Some 3), example_chunk ''B'' ''b0'' (Some 2),
      example_chunk ''A'' ''a1'' (Some 1), example_chunk ''B'' ''b1'' (Some 0)]"

definition omitted_chunk_table :: "int chunk list" where
  "omitted_chunk_table =
     [example_chunk ''A'' ''a0'' (Some 3), example_chunk ''A'' ''a1'' None]"

definition whole_text_split :: "string \<Rightarrow> int \<Rightarrow> int \<Rightarrow> span list" where
  "whole_text_split txt min_chars max_chars =
     (if int (length txt) < min_chars then []
      else [\<lparr>span_content = txt, span_start_char = 0, span_end_char = int (length txt)\<rparr>])"

definition length_client :: "int provider" where
  "length_client = (\<lambda>i input model. Inr (int (length input)))"

definition two_articles :: "article list" where
  "two_articles =
     [\<lparr>article_pmcid = ''A'', article_text = ''short sentence.''\<rparr>,
      \<lparr>article_pmcid = ''B'', article_text = ''another one''\<rparr>]"

lemmas eval_defs =
  default_config_def fresh_world_def origin_client_def squared_difference_def
  example_chunk_def example_row_def two_documents_def interleaved_documents_def
  omitted_chunk_table_def
  embed_get_chunk_query_distance_def query_get_chunk_query_distance_def
  query_query_embeddings_def get_openai_embedding_def reexecutor_def
  retry_openai.simps embeddings_create_def remote_call_def groupby_pmcid_def
  embed_query_embeddings_def pairwise_distances_def rank_numbers_def enumerate_eq_zip
  np_array_def sort_values_def
  unzip_results_def assemble_def make_row_def truthy_def retry_if_exception_type_def

section \<open>Properties of the ranking\<close>

lemma assign_ranks_spec:
  "\<forall>e \<in> set es. snd (snd e) < length ranks \<Longrightarrow> distinct (map (\<lambda>e. snd (snd e)) es) \<Longrightarrow>
   \<exists>rs. assign_ranks es ranks = Inr rs \<and> length rs = length ranks \<and>
        (\<forall>e \<in> set es. rs ! snd (snd e) = fst e) \<and>
        (\<forall>j. j \<notin> (\<lambda>e. snd (snd e)) ` set es \<longrightarrow> rs ! j = ranks ! j)"
proof (induction es arbitrary: ranks)
  case Nil
  then show ?case by simp
next
  case (Cons e es)
  obtain rank num index where e: "e = (rank, (num, index))" by (cases e) auto
  from Cons.prems have idx: "index < length ranks" by (simp add: e)
  have "\<forall>e \<in> set es. snd (snd e) < length (ranks[index := rank])"
    using Cons.prems by simp
  moreover have "distinct (map (\<lambda>e. snd (snd e)) es)" using Cons.prems by simp
  ultimately obtain rs where rs: "assign_ranks es (ranks[index := rank]) = Inr rs"
    "length rs = length (ranks[index := rank])"
    "\<forall>e \<in> set es. rs ! snd (snd e) = fst e"
    "\<forall>j. j \<notin> (\<lambda>e. snd (snd e)) ` set es \<longrightarrow> rs ! j = (ranks[index := rank]) ! j"
    using Cons.IH by blast
  have notin: "index \<notin> (\<lambda>e. snd (snd e)) ` set es" using Cons.prems(2) by (simp add: e)
  have "rs ! index = rank" using rs(4) notin idx by simp
  moreover have "\<forall>j. j \<notin> (\<lambda>e. snd (snd e)) ` set (e # es) \<longrightarrow> rs ! j = ranks ! j"
    using rs(4) by (auto simp: e)
  ultimately show ?case using rs idx by (simp add: e)
qed

text \<open>The sorted list of pairs: one pair per input position, strictly increasing.\<close>

lemma ranked_numbers_props:
  fixes numbers :: "('a::linorder) list"
  defines "ps \<equiv> sort (map (\<lambda>(i, num). (num, i)) (List.enumerate 0 numbers))"
  shows "length ps = length numbers"
    and "set ps = (\<lambda>i. (numbers ! i, i)) ` {..<length numbers}"
    and "sorted_wrt (<) ps"
    and "distinct (map snd ps)"
proof -
  let ?qs = "map (\<lambda>(i, num). (num, i)) (List.enumerate 0 numbers)"
  have qs: "?qs = map (\<lambda>i. (numbers ! i, i)) [0..<length numbers]"
    by (rule nth_equalityI) (simp_all add: nth_enumerate_eq)
  show "length ps = length numbers" by (simp add: ps_def)
  show "set ps = (\<lambda>i. (numbers ! i, i)) ` {..<length numbers}"
    unfolding ps_def set_sort qs by (auto simp: atLeast0LessThan)
  have sp: "set ps = (\<lambda>i. (numbers ! i, i)) ` {..<length numbers}"
    unfolding ps_def set_sort qs by (auto simp: atLeast0LessThan)
  have "distinct ?qs"
    unfolding qs by (simp add: distinct_map inj_on_def)
  then have dp: "distinct ps" by (simp add: ps_def)
  have "inj_on snd (set ps)" unfolding sp by (auto simp: inj_on_def)
  with dp show "distinct (map snd ps)" by (simp add: distinct_map)
  have "sorted ps" by (simp add: ps_def)
  with dp show "sorted_wrt (<) ps"
    by (simp add: strict_sorted_iff)
qed

text \<open>
  The loop never leaves the list, and the rank written at position \<open>a\<close> is the place of
  the pair \<open>(numbers ! a, a)\<close> in the sorted list.
\<close>

lemma rank_numbers_char:
  fixes numbers :: "('a::linorder) list"
  shows "\<exists>rs ps. rank_numbers numbers = Inr rs \<and> length rs = length numbers \<and>
           length ps = length numbers \<and> sorted_wrt (<) ps \<and>
           (\<forall>a<length numbers. rs ! a < length numbers \<and> ps ! (rs ! a) = (numbers ! a, a))"
proof -
  define ps where "ps = sort (map (\<lambda>(i, num). (num, i)) (List.enumerate 0 numbers))"
  let ?n = "length numbers"
  let ?es = "List.enumerate 0 ps"
  note P = ranked_numbers_props [of numbers, folded ps_def]
  have es_set: "set ?es = (\<lambda>r. (r, ps ! r)) ` {..<?n}"
  proof -
    have "?es = map (\<lambda>r. (r, ps ! r)) [0..<?n]"
      by (rule nth_equalityI) (simp_all add: nth_enumerate_eq P(1))
    then show ?thesis by (simp add: atLeast0LessThan)
  qed
  have "\<forall>e \<in> set ?es. snd (snd e) < length (replicate ?n (0::nat))"
  proof
    fix e assume "e \<in> set ?es"
    then obtain r where r: "r < ?n" "e = (r, ps ! r)" using es_set by auto
    then have "ps ! r \<in> set ps" by (simp add: P(1))
    then show "snd (snd e) < length (replicate ?n (0::nat))"
      using r by (auto simp: P(2))
  qed
  moreover have "map (\<lambda>e. snd (snd e)) ?es = map snd ps"
    by (rule nth_equalityI) (simp_all add: nth_enumerate_eq)
  then have "distinct (map (\<lambda>e. snd (snd e)) ?es)" using P(4) by simp
  ultimately obtain rs where rs: "assign_ranks ?es (replicate ?n 0) = Inr rs"
      "length rs = ?n" "\<forall>e \<in> set ?es. rs ! snd (snd e) = fst e"
    using assign_ranks_spec [of ?es "replicate ?n 0"] by auto
  have "\<forall>a<?n. rs ! a < ?n \<and> ps ! (rs ! a) = (numbers ! a, a)"
  proof (intro allI impI)
    fix a assume a: "a < ?n"
    then have "(numbers ! a, a) \<in> set ps" by (auto simp: P(2))
    then obtain r where r: "r < ?n" "ps ! r = (numbers ! a, a)"
      by (auto simp: in_set_conv_nth P(1))
    then have "(r, ps ! r) \<in> set ?es" by (auto simp: es_set)
    then have "rs ! snd (snd (r, ps ! r)) = fst (r, ps ! r)" using rs(3) by blast
    then have "rs ! a = r" by (simp add: r(2))
    then show "rs ! a < ?n \<and> ps ! (rs ! a) = (numbers ! a, a)" using r by simp
  qed
  moreover have "rank_numbers numbers = Inr rs"
    using rs(1) by (simp add: rank_numbers_def ps_def Let_def)
  ultimately show ?thesis using rs(2) P(1) P(3) by blast
qed

lemma strict_sorted_nth_less_iff:
  fixes ps :: "('b::linorder) list"
  assumes "sorted_wrt (<) ps" "i < length ps" "j < length ps"
  shows "(ps ! i < ps ! j) = (i < j)"
proof
  assume "i < j" then show "ps ! i < ps ! j"
    using assms by (simp add: sorted_wrt_nth_less)
next
  assume l: "ps ! i < ps ! j"
  show "i < j"
  proof (rule ccontr)
    assume "\<not> i < j"
    then have "j = i \<or> j < i" by auto
    then show False
    proof
      assume "j = i" with l show False by simp
    next
      assume "j < i"
      then have "ps ! j < ps ! i" using assms by (simp add: sorted_wrt_nth_less)
      with l show False by simp
    qed
  qed
qed

text \<open>
  Claim C1. \<^verbatim>\<open>_rank_numbers\<close> returns, for every list of distances, ranks that order the
  positions exactly as the distances do, ties broken by the original index: the rank of
  \<open>a\<close> is below the rank of \<open>b\<close> if and only if the distance of \<open>a\<close> is smaller, or the
  distances are equal and \<open>a\<close> comes first. The position ranked 0 has a distance less
  than or equal to every other distance, and a non-empty list has a position ranked 0.
\<close>

theorem rank_numbers_total_order:
  fixes numbers :: "('a::linorder) list"
  shows "\<exists>rs. rank_numbers numbers = Inr rs \<and> length rs = length numbers \<and>
     (\<forall>a<length numbers. \<forall>b<length numbers.
        (rs ! a < rs ! b) =
          (numbers ! a < numbers ! b \<or> (numbers ! a = numbers ! b \<and> a < b))) \<and>
     (\<forall>a<length numbers. rs ! a = 0 \<longrightarrow> (\<forall>b<length numbers. numbers ! a \<le> numbers ! b)) \<and>
     (numbers \<noteq> [] \<longrightarrow> (\<exists>a<length numbers. rs ! a = 0))"
proof -
  let ?n = "length numbers"
  obtain rs ps where R: "rank_numbers numbers = Inr rs" "length rs = ?n"
      "length ps = ?n" "sorted_wrt (<) ps"
      "\<forall>a<?n. rs ! a < ?n \<and> ps ! (rs ! a) = (numbers ! a, a)"
    using rank_numbers_char [of numbers] by blast
  have iff: "(rs ! a < rs ! b) =
      (numbers ! a < numbers ! b \<or> (numbers ! a = numbers ! b \<and> a < b))"
    if "a < ?n" "b < ?n" for a b
  proof -
    have "(rs ! a < rs ! b) = (ps ! (rs ! a) < ps ! (rs ! b))"
      using strict_sorted_nth_less_iff [OF R(4), of "rs ! a" "rs ! b"] R(3) R(5) that by simp
    also have "\<dots> = ((numbers ! a, a) < (numbers ! b, b))" using R(5) that by simp
    finally show ?thesis by (auto simp: less_prod_simp)
  qed
  have inj: "a = b" if "a < ?n" "b < ?n" "rs ! a = rs ! b" for a b
    using iff [OF that(1,2)] iff [OF that(2,1)] that(3) by auto
  have zero: "\<forall>b<?n. numbers ! a \<le> numbers ! b" if "a < ?n" "rs ! a = 0" for a
  proof (intro allI impI)
    fix b assume b: "b < ?n"
    have "\<not> rs ! b < rs ! a" using that by simp
    then show "numbers ! a \<le> numbers ! b" using iff [OF b that(1)] by auto
  qed
  have ex0: "\<exists>a<?n. rs ! a = 0" if "numbers \<noteq> []"
  proof -
    have "inj_on ((!) rs) {..<?n}" using inj by (auto simp: inj_on_def)
    moreover have "(!) rs ` {..<?n} \<subseteq> {..<?n}" using R(5) by auto
    ultimately have "(!) rs ` {..<?n} = {..<?n}"
      by (simp add: card_image card_subset_eq)
    moreover have "0 \<in> {..<?n}" using that by simp
    ultimately show ?thesis by (metis imageE lessThan_iff)
  qed
  show ?thesis using R(1,2) iff zero ex0 by blast
qed

theorem rank_numbers_total_order_witness:
  "rank_numbers [9, 1, 5, 1 :: int] = Inr [3, 0, 2, 1] \<and>
   (\<exists>rs. rank_numbers [9, 1, 5, 1 :: int] = Inr rs \<and> rs ! 1 < rs ! 3 \<and> \<not> rs ! 0 < rs ! 2)"
proof -
  obtain rs where A: "rank_numbers [9, 1, 5, 1 :: int] = Inr rs"
    and C: "\<forall>a<length [9, 1, 5, 1 :: int]. \<forall>b<length [9, 1, 5, 1 :: int].
        (rs ! a < rs ! b) =
          ([9, 1, 5, 1 :: int] ! a < [9, 1, 5, 1 :: int] ! b \<or>
           ([9, 1, 5, 1 :: int] ! a = [9, 1, 5, 1 :: int] ! b \<and> a < b))"
    using rank_numbers_total_order [of "[9, 1, 5, 1 :: int]"] by blast
  have "rs ! 1 < rs ! 3" using C [rule_format, of 1 3] by simp
  moreover have "\<not> rs ! 0 < rs ! 2" using C [rule_format, of 0 2] by simp
  moreover have "rank_numbers [9, 1, 5, 1 :: int] = Inr [3, 0, 2, 1]"
    by (simp add: rank_numbers_def enumerate_eq_zip)
  ultimately show ?thesis using A by simp
qed

text \<open>
  Claim C10. For every list of \<open>n\<close> numbers, \<^verbatim>\<open>_rank_numbers\<close> returns a list of length
  \<open>n\<close> that is a permutation of \<open>0, ..., n - 1\<close>: its entries are distinct, they are
  exactly the numbers below \<open>n\<close>, and every rank below \<open>n\<close> is held by exactly one
  position.
\<close>

theorem rank_numbers_permutation:
  fixes numbers :: "('a::linorder) list"
  shows "\<exists>rs. rank_numbers numbers = Inr rs \<and> length rs = length numbers \<and>
     distinct rs \<and> set rs = {..<length numbers} \<and>
     (\<forall>r<length numbers. \<exists>!i. i < length numbers \<and> rs ! i = r)"
proof -
  let ?n = "length numbers"
  obtain rs ps where R: "rank_numbers numbers = Inr rs" "length rs = ?n"
      "\<forall>a<?n. rs ! a < ?n \<and> ps ! (rs ! a) = (numbers ! a, a)"
    using rank_numbers_char [of numbers] by blast
  have inj: "a = b" if "a < ?n" "b < ?n" "rs ! a = rs ! b" for a b
  proof -
    have "(numbers ! a, a) = ps ! (rs ! a)" using R(3) that(1) by simp
    also have "\<dots> = (numbers ! b, b)" using R(3) that(2,3) by simp
    finally show ?thesis by simp
  qed
  have d: "distinct rs" using inj R(2) by (auto simp: distinct_conv_nth)
  have "set rs \<subseteq> {..<?n}" using R(2,3) by (auto simp: in_set_conv_nth)
  moreover have "card (set rs) = ?n" using d R(2) by (simp add: distinct_card)
  ultimately have s: "set rs = {..<?n}" by (simp add: card_subset_eq)
  have "\<exists>!i. i < ?n \<and> rs ! i = r" if "r < ?n" for r
  proof -
    have "r \<in> set rs" using s that by simp
    then obtain i where "i < ?n" "rs ! i = r" using R(2) by (auto simp: in_set_conv_nth)
    then show ?thesis using inj by blast
  qed
  then show ?thesis using R(1,2) d s by blast
qed

theorem rank_numbers_permutation_witness:
  "rank_numbers [0.5, 0.25, 0.5 :: rat] = Inr [1, 0, 2] \<and>
   (\<exists>rs. rank_numbers [0.5, 0.25, 0.5 :: rat] = Inr rs \<and> length rs = 3 \<and>
      (\<exists>!i. i < 3 \<and> rs ! i = 2))"
proof -
  obtain rs where A: "rank_numbers [0.5, 0.25, 0.5 :: rat] = Inr rs"
    and B: "length rs = length [0.5, 0.25, 0.5 :: rat]"
    and C: "\<forall>r<length [0.5, 0.25, 0.5 :: rat].
        \<exists>!i. i < length [0.5, 0.25, 0.5 :: rat] \<and> rs ! i = r"
    using rank_numbers_permutation [of "[0.5, 0.25, 0.5 :: rat]"] by blast
  have "\<exists>!i. i < 3 \<and> rs ! i = 2" using C [rule_format, of 2] by (simp add: numeral_3_eq_3)
  moreover have "rank_numbers [0.5, 0.25, 0.5 :: rat] = Inr [1, 0, 2]"
    by (simp add: rank_numbers_def enumerate_eq_zip)
  ultimately show ?thesis using A B by simp
qed

section \<open>Properties of the retry policy and the embedding client\<close>

lemma retry_openai_Inr:
  "func w = (Inr v, w') \<Longrightarrow> retry_openai n func attempt w = (Inr v, w')"
  by (subst retry_openai.simps) simp

lemma retry_openai_fatal:
  "func w = (Inl e, w') \<Longrightarrow> \<not> retry_if_exception_type e \<Longrightarrow>
   retry_openai n func attempt w = (Inl e, w')"
  by (subst retry_openai.simps) simp

lemma retry_openai_stop:
  "func w = (Inl e, w') \<Longrightarrow> retry_if_exception_type e \<Longrightarrow> n \<le> int attempt \<Longrightarrow>
   retry_openai n func attempt w = (Inl (RetryError e), w')"
  by (subst retry_openai.simps) simp

lemma retry_openai_again:
  "func w = (Inl e, w') \<Longrightarrow> retry_if_exception_type e \<Longrightarrow> int attempt < n \<Longrightarrow>
   retry_openai n func attempt w = retry_openai n func (Suc attempt) w'"
  by (subst retry_openai.simps) simp

text \<open>k transient failures starting at attempt a, then success.\<close>
lemma retry_openai_succeeds:
  assumes "int attempt + int k \<le> n"
    and "\<forall>i<k. \<exists>e. script (provider_calls w + i) = Inl e \<and> retry_if_exception_type e"
    and "script (provider_calls w + k) = Inr v"
  shows "retry_openai n (remote_call script) attempt w =
           (Inr v, w\<lparr>provider_calls := provider_calls w + k + 1\<rparr>)"
  using assms
proof (induction k arbitrary: attempt w)
  case 0
  then show ?case
    by (simp add: retry_openai_Inr remote_call_def)
next
  case (Suc k)
  from Suc.prems(2) obtain e where e: "script (provider_calls w) = Inl e" "retry_if_exception_type e"
    by force
  let ?w = "w\<lparr>provider_calls := Suc (provider_calls w)\<rparr>"
  have step: "retry_openai n (remote_call script) attempt w =
      retry_openai n (remote_call script) (Suc attempt) ?w"
    using e Suc.prems(1) by (intro retry_openai_again [of _ _ e]) (simp_all add: remote_call_def)
  have "retry_openai n (remote_call script) (Suc attempt) ?w =
      (Inr v, ?w\<lparr>provider_calls := provider_calls ?w + k + 1\<rparr>)"
  proof (rule Suc.IH)
    show "int (Suc attempt) + int k \<le> n" using Suc.prems(1) by simp
    show "\<forall>i<k. \<exists>e. script (provider_calls ?w + i) = Inl e \<and> retry_if_exception_type e"
      using Suc.prems(2) by (auto dest: spec [of _ "Suc _"])
    show "script (provider_calls ?w + k) = Inr v" using Suc.prems(3) by simp
  qed
  with step show ?case by simp
qed

text \<open>
  Claim C5. A remote call that raises a retryable exception on each of its next \<open>k\<close>
  invocations and returns \<open>v\<close> on the one after, with \<open>k\<close> below the configured number of
  attempts, is invoked by \<^verbatim>\<open>reexecutor\<close> exactly \<open>k + 1\<close> times, and \<open>v\<close> is returned to
  the caller.
\<close>

theorem reexecutor_retry_bound:
  assumes "int k < attempts"
    and "\<forall>i<k. \<exists>e. script (provider_calls w + i) = Inl e \<and> retry_if_exception_type e"
    and "script (provider_calls w + k) = Inr v"
  shows "reexecutor attempts (remote_call script) w =
           (Inr v, w\<lparr>provider_calls := provider_calls w + k + 1\<rparr>)"
proof (cases "attempts > 1")
  case True
  have "int 1 + int k \<le> attempts" using assms(1) by simp
  from retry_openai_succeeds [OF this assms(2,3)] True
  show ?thesis by (simp add: reexecutor_def)
next
  case False
  with assms(1) have "k = 0" by simp
  with assms(3) False show ?thesis by (simp add: reexecutor_def remote_call_def)
qed


theorem reexecutor_retry_bound_witness:
  "reexecutor 50 (remote_call (\<lambda>i. if i < 2 then Inl RateLimitError else Inr (7::nat)))
     \<lparr>provider_calls = 0, embedding_calls = 0, warnings = []\<rparr> =
   (Inr 7, \<lparr>provider_calls = 3, embedding_calls = 0, warnings = []\<rparr>)"
  using reexecutor_retry_bound [of 2 50 "\<lambda>i. if i < 2 then Inl RateLimitError else Inr (7::nat)"
      "\<lparr>provider_calls = 0, embedding_calls = 0, warnings = []\<rparr>" 7]
  by (simp add: retry_if_exception_type_def)

lemma retry_openai_all_fail:
  assumes "\<forall>i. provider_calls w \<le> i \<longrightarrow> isl (script i)"
  shows "\<exists>e w'. retry_openai n (remote_call script) attempt w = (Inl e, w') \<and>
           warnings w' = warnings w \<and> embedding_calls w' = embedding_calls w \<and>
           provider_calls w < provider_calls w'"
  using assms
proof (induction "nat (n - int attempt)" arbitrary: attempt w rule: less_induct)
  case less
  let ?w = "w\<lparr>provider_calls := Suc (provider_calls w)\<rparr>"
  from less.prems obtain e where e: "script (provider_calls w) = Inl e"
    by (metis isl_def order_refl)
  then have call: "remote_call script w = (Inl e, ?w)" by (simp add: remote_call_def)
  show ?case
  proof (cases "retry_if_exception_type e")
    case False
    with call show ?thesis by (simp add: retry_openai_fatal)
  next
    case True
    show ?thesis
    proof (cases "n \<le> int attempt")
      case True
      with call \<open>retry_if_exception_type e\<close> show ?thesis by (simp add: retry_openai_stop)
    next
      case False
      then have lt: "int attempt < n" by simp
      have "nat (n - int (Suc attempt)) < nat (n - int attempt)" using lt by simp
      moreover have "\<forall>i. provider_calls ?w \<le> i \<longrightarrow> isl (script i)"
        using less.prems by simp
      ultimately obtain e' w' where
        "retry_openai n (remote_call script) (Suc attempt) ?w = (Inl e', w')"
        "warnings w' = warnings ?w" "embedding_calls w' = embedding_calls ?w"
        "provider_calls ?w < provider_calls w'"
        using less.hyps by blast
      then show ?thesis
        using retry_openai_again [where func = "remote_call script" and w = w, OF call True lt]
        by simp
    qed
  qed
qed

lemma reexecutor_all_fail:
  assumes "\<forall>i. provider_calls w \<le> i \<longrightarrow> isl (script i)"
  shows "\<exists>e w'. reexecutor n (remote_call script) w = (Inl e, w') \<and>
           warnings w' = warnings w \<and> embedding_calls w' = embedding_calls w \<and>
           provider_calls w < provider_calls w'"
proof (cases "n > 1")
  case True
  then show ?thesis
    using retry_openai_all_fail [OF assms, of n 1] by (simp add: reexecutor_def)
next
  case False
  from assms obtain e where "script (provider_calls w) = Inl e"
    by (metis isl_def order_refl)
  with False show ?thesis by (simp add: reexecutor_def remote_call_def)
qed

text \<open>Exhaustion: every one of the n attempts raises a retryable exception.\<close>
lemma retry_openai_exhausted:
  assumes "int attempt + int k = n" "attempt > 0"
    and "\<forall>i\<le>k. \<exists>e. script (provider_calls w + i) = Inl e \<and> retry_if_exception_type e"
  shows "\<exists>e. script (provider_calls w + k) = Inl e \<and>
           retry_openai n (remote_call script) attempt w =
             (Inl (RetryError e), w\<lparr>provider_calls := provider_calls w + k + 1\<rparr>)"
  using assms
proof (induction k arbitrary: attempt w)
  case 0
  then obtain e where e: "script (provider_calls w) = Inl e" "retry_if_exception_type e"
    by force
  then have "remote_call script w = (Inl e, w\<lparr>provider_calls := Suc (provider_calls w)\<rparr>)"
    by (simp add: remote_call_def)
  from retry_openai_stop [where func = "remote_call script" and w = w, OF this e(2), of n attempt]
    0(1) e show ?case by simp
next
  case (Suc k)
  from Suc.prems(3) obtain e where e: "script (provider_calls w) = Inl e" "retry_if_exception_type e"
    by force
  let ?w = "w\<lparr>provider_calls := Suc (provider_calls w)\<rparr>"
  have call: "remote_call script w = (Inl e, ?w)" using e by (simp add: remote_call_def)
  have step: "retry_openai n (remote_call script) attempt w =
      retry_openai n (remote_call script) (Suc attempt) ?w"
    using Suc.prems(1)
    by (intro retry_openai_again [where func = "remote_call script" and w = w, OF call e(2)]) simp
  have "\<exists>e. script (provider_calls ?w + k) = Inl e \<and>
           retry_openai n (remote_call script) (Suc attempt) ?w =
             (Inl (RetryError e), ?w\<lparr>provider_calls := provider_calls ?w + k + 1\<rparr>)"
  proof (rule Suc.IH)
    show "int (Suc attempt) + int k = n" using Suc.prems(1) by simp
    show "0 < Suc attempt" by simp
    show "\<forall>i\<le>k. \<exists>e. script (provider_calls ?w + i) = Inl e \<and> retry_if_exception_type e"
      using Suc.prems(3) by (auto dest: spec [of _ "Suc _"])
  qed
  with step show ?case by simp
qed

text \<open>
  Whatever exception the retry layer ends with is the one \<^verbatim>\<open>get_openai_embedding\<close> raises
  in fail-hard mode, or warns of in fail-soft mode.
\<close>

lemma get_openai_embedding_reraises:
  assumes "\<forall>i. provider_calls w \<le> i \<longrightarrow> isl (client i input model)"
  shows "\<exists>e w'.
     reexecutor (retry_attempts cfg) (embeddings_create client input model)
        (w\<lparr>embedding_calls := Suc (embedding_calls w)\<rparr>) = (Inl e, w') \<and>
     warnings w' = warnings w \<and>
     get_openai_embedding cfg client input model w =
       (if truthy (warn_on_failure cfg) then (Inr None, w'\<lparr>warnings := warnings w @ [e]\<rparr>)
        else (Inl e, w')) \<and>
     (warn_on_failure cfg = None \<longrightarrow>
        get_openai_embedding cfg client input model w = (Inl e, w'))"
proof -
  let ?w = "w\<lparr>embedding_calls := Suc (embedding_calls w)\<rparr>"
  have "\<forall>i. provider_calls ?w \<le> i \<longrightarrow> isl (client i input model)" using assms by simp
  from reexecutor_all_fail [of ?w "\<lambda>i. client i input model", OF this]
  obtain e w' where R: "reexecutor (retry_attempts cfg) (embeddings_create client input model) ?w
       = (Inl e, w')" "warnings w' = warnings w"
    unfolding embeddings_create_def by fastforce
  then show ?thesis
    by (auto simp: get_openai_embedding_def Let_def truthy_def)
qed

text \<open>
  Claim C6, as amended. When each of the \<open>N\<close> attempts of the provider call behind an
  embedding request raises a retryable exception (\<open>N > 1\<close> attempts configured), the last
  of them being \<open>e_final\<close>, exactly \<open>N\<close> provider requests are issued, and
  \<^verbatim>\<open>get_openai_embedding\<close> in fail-hard mode (\<^verbatim>\<open>PUBLANG_WARN_ON_FAILURE\<close> unset, the default,
  or empty) raises tenacity's \<open>RetryError\<close> around \<open>e_final\<close>, not \<open>e_final\<close> itself, and
  emits no warning; in fail-soft mode it returns \<^verbatim>\<open>None\<close> and emits one warning, of that
  \<open>RetryError\<close>. With retrying disabled (\<open>N \<le> 1\<close>) the single request's exception
  \<open>e_final\<close> itself is raised, or warned of.
\<close>

theorem get_openai_embedding_exhaustion:
  "(1 < retry_attempts cfg \<and>
    (\<forall>i<nat (retry_attempts cfg).
        \<exists>e. client (provider_calls w + i) input model = Inl e \<and> retry_if_exception_type e) \<and>
    client (provider_calls w + nat (retry_attempts cfg) - 1) input model = Inl e_final \<longrightarrow>
    get_openai_embedding cfg client input model w =
      (if truthy (warn_on_failure cfg)
       then (Inr None,
             w\<lparr>provider_calls := provider_calls w + nat (retry_attempts cfg),
               embedding_calls := Suc (embedding_calls w),
               warnings := warnings w @ [RetryError e_final]\<rparr>)
       else (Inl (RetryError e_final),
             w\<lparr>provider_calls := provider_calls w + nat (retry_attempts cfg),
               embedding_calls := Suc (embedding_calls w)\<rparr>))) \<and>
   (retry_attempts cfg \<le> 1 \<and> client (provider_calls w) input model = Inl e_final \<longrightarrow>
    get_openai_embedding cfg client input model w =
      (if truthy (warn_on_failure cfg)
       then (Inr None,
             w\<lparr>provider_calls := Suc (provider_calls w),
               embedding_calls := Suc (embedding_calls w),
               warnings := warnings w @ [e_final]\<rparr>)
       else (Inl e_final,
             w\<lparr>provider_calls := Suc (provider_calls w),
               embedding_calls := Suc (embedding_calls w)\<rparr>)))"
proof (intro conjI impI; elim conjE)
  let ?w = "w\<lparr>embedding_calls := Suc (embedding_calls w)\<rparr>"
  let ?script = "\<lambda>i. client i input model"
  assume n: "1 < retry_attempts cfg"
    and fails: "\<forall>i<nat (retry_attempts cfg).
        \<exists>e. client (provider_calls w + i) input model = Inl e \<and> retry_if_exception_type e"
    and last: "client (provider_calls w + nat (retry_attempts cfg) - 1) input model = Inl e_final"
  define k where "k = nat (retry_attempts cfg) - 1"
  have k: "int 1 + int k = retry_attempts cfg" "nat (retry_attempts cfg) = Suc k"
    using n by (simp_all add: k_def)
  have f: "\<forall>i\<le>k. \<exists>e. ?script (provider_calls ?w + i) = Inl e \<and> retry_if_exception_type e"
    using fails k(2) by simp
  from retry_openai_exhausted [where script = ?script and w = ?w, OF k(1) _ f]
  obtain e where e: "?script (provider_calls ?w + k) = Inl e"
    "retry_openai (retry_attempts cfg) (remote_call ?script) 1 ?w =
       (Inl (RetryError e), ?w\<lparr>provider_calls := provider_calls ?w + k + 1\<rparr>)"
    by auto
  have "e = e_final" using e(1) last k(2) by simp
  with e(2) n k(2) show "get_openai_embedding cfg client input model w =
      (if truthy (warn_on_failure cfg)
       then (Inr None,
             w\<lparr>provider_calls := provider_calls w + nat (retry_attempts cfg),
               embedding_calls := Suc (embedding_calls w),
               warnings := warnings w @ [RetryError e_final]\<rparr>)
       else (Inl (RetryError e_final),
             w\<lparr>provider_calls := provider_calls w + nat (retry_attempts cfg),
               embedding_calls := Suc (embedding_calls w)\<rparr>))"
    by (simp add: get_openai_embedding_def embeddings_create_def reexecutor_def Let_def)
next
  assume "retry_attempts cfg \<le> 1" "client (provider_calls w) input model = Inl e_final"
  then show "get_openai_embedding cfg client input model w =
      (if truthy (warn_on_failure cfg)
       then (Inr None,
             w\<lparr>provider_calls := Suc (provider_calls w),
               embedding_calls := Suc (embedding_calls w),
               warnings := warnings w @ [e_final]\<rparr>)
       else (Inl e_final,
             w\<lparr>provider_calls := Suc (provider_calls w),
               embedding_calls := Suc (embedding_calls w)\<rparr>))"
    by (simp add: get_openai_embedding_def embeddings_create_def reexecutor_def Let_def
        remote_call_def)
qed

theorem get_openai_embedding_exhaustion_witness:
  "get_openai_embedding \<lparr>retry_attempts = 3, warn_on_failure = None\<rparr>
      rate_limited_client ''text'' ''model'' fresh_world =
    (Inl (RetryError RateLimitError),
      \<lparr>provider_calls = 3, embedding_calls = 1, warnings = []\<rparr>) \<and>
   get_openai_embedding \<lparr>retry_attempts = 3, warn_on_failure = Some ''1''\<rparr>
      rate_limited_client ''text'' ''model'' fresh_world =
    (Inr None,
      \<lparr>provider_calls = 3, embedding_calls = 1, warnings = [RetryError RateLimitError]\<rparr>) \<and>
   get_openai_embedding \<lparr>retry_attempts = 1, warn_on_failure = None\<rparr>
      rate_limited_client ''text'' ''model'' fresh_world =
    (Inl RateLimitError, \<lparr>provider_calls = 1, embedding_calls = 1, warnings = []\<rparr>)"
proof -
  have hard: "get_openai_embedding \<lparr>retry_attempts = 3, warn_on_failure = None\<rparr>
      rate_limited_client ''text'' ''model'' fresh_world =
    (Inl (RetryError RateLimitError),
      \<lparr>provider_calls = 3, embedding_calls = 1, warnings = []\<rparr>)"
    using get_openai_embedding_exhaustion [where cfg = "\<lparr>retry_attempts = 3, warn_on_failure = None\<rparr>"
        and client = rate_limited_client and input = "''text''" and model = "''model''"
        and w = fresh_world and e_final = RateLimitError, THEN conjunct1]
    by (simp add: rate_limited_client_def fresh_world_def truthy_def retry_if_exception_type_def)
  have soft: "get_openai_embedding \<lparr>retry_attempts = 3, warn_on_failure = Some ''1''\<rparr>
      rate_limited_client ''text'' ''model'' fresh_world =
    (Inr None,
      \<lparr>provider_calls = 3, embedding_calls = 1, warnings = [RetryError RateLimitError]\<rparr>)"
    using get_openai_embedding_exhaustion [where cfg = "\<lparr>retry_attempts = 3, warn_on_failure = Some ''1''\<rparr>"
        and client = rate_limited_client and input = "''text''" and model = "''model''"
        and w = fresh_world and e_final = RateLimitError, THEN conjunct1]
    by (simp add: rate_limited_client_def fresh_world_def truthy_def retry_if_exception_type_def)
  have off: "get_openai_embedding \<lparr>retry_attempts = 1, warn_on_failure = None\<rparr>
      rate_limited_client ''text'' ''model'' fresh_world =
    (Inl RateLimitError, \<lparr>provider_calls = 1, embedding_calls = 1, warnings = []\<rparr>)"
    using get_openai_embedding_exhaustion [where cfg = "\<lparr>retry_attempts = 1, warn_on_failure = None\<rparr>"
        and client = rate_limited_client and input = "''text''" and model = "''model''"
        and w = fresh_world and e_final = RateLimitError, THEN conjunct2]
    by (simp add: rate_limited_client_def fresh_world_def truthy_def)
  show ?thesis using hard soft off by (intro conjI)
qed

text \<open>
  The provider's final exception is \<open>RateLimitError\<close>; what the caller of
  \<^verbatim>\<open>get_openai_embedding\<close> receives in the default fail-hard mode is not that exception
  but \<open>RetryError\<close> around it.
\<close>

theorem final_exception_wrapped_counterexample:
  "fst (get_openai_embedding \<lparr>retry_attempts = 3, warn_on_failure = None\<rparr>
          rate_limited_client ''text'' ''model'' fresh_world) =
     Inl (RetryError RateLimitError) \<and>
   fst (get_openai_embedding \<lparr>retry_attempts = 3, warn_on_failure = None\<rparr>
          rate_limited_client ''text'' ''model'' fresh_world) \<noteq>
     Inl RateLimitError"
  by (simp add: get_openai_embedding_def reexecutor_def embeddings_create_def remote_call_def
      retry_openai.simps retry_if_exception_type_def truthy_def rate_limited_client_def
      fresh_world_def)

section \<open>Grouping and alignment\<close>

lemma set_unique: "set (unique xs) = set xs"
  by (induction xs rule: unique.induct) auto



text \<open>
  \<open>contiguous\<close> read by positions: whenever two rows have the same key, so has every
  row between them.
\<close>

lemma contiguous_iff:
  "contiguous ks \<longleftrightarrow>
     (\<forall>i j k. i \<le> j \<and> j \<le> k \<and> k < length ks \<and> ks ! i = ks ! k \<longrightarrow> ks ! j = ks ! i)"
proof -
  obtain f :: "nat \<Rightarrow> nat" where f: "mono f"
      "f ` {0 ..< length ks} = {0 ..< length (remdups_adj ks)}"
      "\<forall>i < length ks. ks ! i = remdups_adj ks ! (f i)"
      "\<forall>i. i + 1 < length ks \<longrightarrow> (ks ! i = ks ! (i + 1) \<longleftrightarrow> f i = f (i + 1))"
    using remdups_adj_altdef [of ks "remdups_adj ks"] by auto
  let ?ys = "remdups_adj ks"
  have range: "f i < length ?ys" if "i < length ks" for i
    using f(2) that by (metis atLeastLessThan_iff imageI le0)
  show ?thesis
  proof
    assume c: "contiguous ks"
    show "\<forall>i j k. i \<le> j \<and> j \<le> k \<and> k < length ks \<and> ks ! i = ks ! k \<longrightarrow> ks ! j = ks ! i"
    proof (intro allI impI, elim conjE)
      fix i j k assume h: "i \<le> j" "j \<le> k" "k < length ks" "ks ! i = ks ! k"
      then have "?ys ! f i = ?ys ! f k" using f(3) by simp
      then have "f i = f k"
        using c h range [of i] range [of k] by (simp add: contiguous_def nth_eq_iff_index_eq)
      moreover have "f i \<le> f j" "f j \<le> f k" using f(1) h by (auto dest: monoD)
      ultimately have "f j = f i" by simp
      then show "ks ! j = ks ! i" using f(3) h by simp
    qed
  next
    assume r: "\<forall>i j k. i \<le> j \<and> j \<le> k \<and> k < length ks \<and> ks ! i = ks ! k \<longrightarrow> ks ! j = ks ! i"
    have const: "f (i + d) = f i" if "i + d < length ks" "ks ! i = ks ! (i + d)" for i d
      using that
    proof (induction d)
      case 0
      then show ?case by simp
    next
      case (Suc d)
      have a: "ks ! (i + d) = ks ! i" using r Suc.prems by (metis le_add1 add_Suc_right le_SucI le_refl)
      have b: "ks ! (i + d) = ks ! (i + d + 1)" using a Suc.prems by simp
      have "f (i + d) = f (i + d + 1)" using f(4) b Suc.prems by simp
      moreover have "f (i + d) = f i" using Suc.IH a Suc.prems by simp
      ultimately show ?case by simp
    qed
    have "distinct ?ys"
      unfolding distinct_conv_nth
    proof (intro allI impI)
      fix a b assume ab: "a < length ?ys" "b < length ?ys" "a \<noteq> b"
      obtain i where i: "i < length ks" "f i = a" using f(2) ab(1)
        by (metis (no_types, opaque_lifting) atLeastLessThan_iff imageE le0)
      obtain k where k: "k < length ks" "f k = b" using f(2) ab(2)
        by (metis (no_types, opaque_lifting) atLeastLessThan_iff imageE le0)
      show "?ys ! a \<noteq> ?ys ! b"
      proof
        assume "?ys ! a = ?ys ! b"
        then have e: "ks ! i = ks ! k" using f(3) i k by simp
        show False
        proof (cases "i \<le> k")
          case True
          then obtain d where "k = i + d" using le_Suc_ex by blast
          with const [of i d] e k i ab(3) show False by simp
        next
          case False
          then obtain d where "i = k + d" by (metis le_Suc_ex nat_le_linear)
          with const [of k d] e k i ab(3) show False by simp
        qed
      qed
    qed
    then show "contiguous ks" by (simp add: contiguous_def)
  qed
qed




lemma collect_isl: "x \<in> set xs \<Longrightarrow> isl (f x) \<Longrightarrow> isl (collect f xs)"
  by (induction xs) (auto split: sum.splits)

lemma those_Some_map: "those xs = Some ys \<Longrightarrow> xs = map Some ys"
  by (induction xs arbitrary: ys) (auto split: option.splits)

lemma those_None_iff: "those xs = None \<longleftrightarrow> None \<in> set xs"
  by (induction xs) (auto split: option.splits)

lemma rank_numbers_length: "rank_numbers ds = Inr rs \<Longrightarrow> length rs = length ds"
  using rank_numbers_char [of ds] by auto

lemma zip_concat:
  "list_all2 (\<lambda>xs ys. length xs = length ys) xss yss \<Longrightarrow>
   zip (concat xss) (concat yss) = concat (map (\<lambda>(xs, ys). zip xs ys) (zip xss yss))"
  by (induction rule: list_all2_induct) simp_all


lemma length_those: "those xs = Some ys \<Longrightarrow> length ys = length xs"
  by (drule those_Some_map) simp




lemma length_filter_disjoint:
  "\<forall>x \<in> set xs. \<not> (P x \<and> Q x) \<Longrightarrow>
   length (filter P xs) + length (filter Q xs) = length (filter (\<lambda>x. P x \<or> Q x) xs)"
  by (induction xs) auto

lemma length_groups_of_keys:
  "length (concat (map (\<lambda>k. filter (\<lambda>r. f r = k) xs) (unique ks))) =
   length (filter (\<lambda>r. f r \<in> set ks) xs)"
proof (induction ks rule: unique.induct)
  case 1
  then show ?case by simp
next
  case (2 k ks)
  have "length (filter (\<lambda>r. f r = k) xs) +
        length (filter (\<lambda>r. f r \<in> set (filter (\<lambda>y. y \<noteq> k) ks)) xs) =
        length (filter (\<lambda>r. f r = k \<or> f r \<in> set (filter (\<lambda>y. y \<noteq> k) ks)) xs)"
    by (rule length_filter_disjoint) auto
  also have "(\<lambda>r. f r = k \<or> f r \<in> set (filter (\<lambda>y. y \<noteq> k) ks)) = (\<lambda>r. f r \<in> set (k # ks))"
    by auto
  finally show ?case using 2 by simp
qed

text \<open>The groups are a partition of the rows, contiguous or not.\<close>
lemma length_groupby_pmcid: "length (concat (map snd (groupby_pmcid df))) = length df"
  using length_groups_of_keys [of pmcid df "map pmcid df"]
  by (simp add: groupby_pmcid_def comp_def)

lemma groups_nonempty: "(k, g) \<in> set (groupby_pmcid df) \<Longrightarrow> g \<noteq> [] \<and> set g \<subseteq> set df"
  by (auto simp: groupby_pmcid_def set_unique filter_empty_conv)

lemma collect_total:
  "\<forall>x \<in> set xs. \<exists>y. f x = Inr y \<and> P x y \<Longrightarrow>
   \<exists>ys. collect f xs = Inr ys \<and> list_all2 P xs ys"
proof (induction xs)
  case Nil
  then show ?case by simp
next
  case (Cons x xs)
  then obtain y ys where "f x = Inr y" "P x y" "collect f xs = Inr ys" "list_all2 P xs ys"
    by auto
  then show ?case by simp
qed

lemma those_map_Some: "\<forall>x \<in> set xs. x \<noteq> None \<Longrightarrow> \<exists>ys. those xs = Some ys"
  by (induction xs) auto


lemma np_array_present: "None \<notin> set embs \<Longrightarrow> np_array embs = Inr embs"
  by (simp add: np_array_def)






text \<open>The final sort arranges the same rows in ascending distance, whatever the tie order.\<close>

lemma sorted_map_fst:
  fixes zs :: "('a::linorder \<times> 'b::linorder) list"
  shows "sorted zs \<Longrightarrow> sorted (map fst zs)"
  by (induction zs) (auto simp: less_eq_prod_def)

lemma sorted_sort_values: "sorted (map distance (sort_values tie_break ranks_df))"
proof -
  let ?k = "\<lambda>(i, row). (distance row, tie_break i)"
  let ?ys = "sort_key ?k (List.enumerate 0 ranks_df)"
  have eq: "map distance (sort_values tie_break ranks_df) = map fst (map ?k ?ys)"
    by (simp add: sort_values_def case_prod_unfold comp_def)
  have "sorted (map ?k ?ys)" by (rule sorted_sort_key)
  then have "sorted (map fst (map ?k ?ys))" by (rule sorted_map_fst)
  then show ?thesis by (simp only: eq)
qed


text \<open>Every arrangement of the rows in ascending distance is the sort for some tie order.\<close>

lemma sort_values_covers_every_order:
  fixes out :: "('d::linorder) ranked_row list"
  assumes so: "sorted (map distance out)" and ms: "mset out = mset ranks_df"
  shows "\<exists>tie_break. sort_values tie_break ranks_df = out"
proof -
  let ?n = "length ranks_df"
  have ln: "length out = ?n" using ms by (rule mset_eq_length)
  have "length ranks_df = length [0..<?n]" by simp
  from ex_mset_zip_left [OF this ms] obtain js where
    js: "length js = length out" "mset (zip out js) = mset (zip ranks_df [0..<?n])"
    by blast
  have a: "map snd (zip out js) = js" using js(1) by simp
  have b: "map snd (zip ranks_df [0..<?n]) = [0..<?n]" by simp
  have "mset (map snd (zip out js)) = mset (map snd (zip ranks_df [0..<?n]))"
    unfolding mset_map by (simp only: js(2))
  then have mj: "mset js = mset [0..<?n]" by (simp only: a b)
  then have dj: "distinct js" by (metis distinct_upt mset_eq_imp_distinct_iff)
  define tb where "tb i = length (takeWhile (\<lambda>k. k \<noteq> i) js)" for i
  have tbj: "tb (js ! j) = j" if "j < length js" for j
  proof -
    have "takeWhile (\<lambda>k. k \<noteq> js ! j) js = take j js"
    proof (rule takeWhile_eq_take_P_nth)
      show "\<And>i. i < j \<Longrightarrow> i < length js \<Longrightarrow> js ! i \<noteq> js ! j"
        using dj that by (simp add: nth_eq_iff_index_eq)
      show "j < length js \<Longrightarrow> \<not> js ! j \<noteq> js ! j" by simp
    qed
    then show ?thesis using that by (simp add: tb_def)
  qed
  let ?k = "\<lambda>(i, row). (distance row, tb i)"
  let ?ys = "zip js out"
  let ?es = "List.enumerate 0 ranks_df"
  have es: "?es = zip [0..<?n] ranks_df" by (simp add: enumerate_eq_zip)
  have "mset ?ys = image_mset (\<lambda>(x, y). (y, x)) (mset (zip out js))"
    by (subst zip_commute) simp
  also have "\<dots> = image_mset (\<lambda>(x, y). (y, x)) (mset (zip ranks_df [0..<?n]))"
    by (simp only: js(2))
  also have "\<dots> = mset ?es" unfolding es by (subst (2) zip_commute) simp
  finally have my: "mset ?es = mset ?ys" by simp
  have keys: "map ?k ?ys = map (\<lambda>j. (distance (out ! j), j)) [0..<?n]"
    using js(1) ln tbj by (intro nth_equalityI) simp_all
  have sk: "sorted (map ?k ?ys)"
    unfolding keys sorted_map
  proof (rule sorted_wrt_mono_rel [of _ "(<)"])
    show "sorted_wrt (<) [0..<?n]" by (simp add: sorted_wrt_upt)
    fix i j assume "i \<in> set [0..<?n]" "j \<in> set [0..<?n]" "i < j"
    then have "distance (out ! i) \<le> distance (out ! j)"
      using so ln by (simp add: sorted_iff_nth_mono)
    with \<open>i < j\<close> show "(distance (out ! i), i) \<le> (distance (out ! j), j)"
      by (auto simp: less_eq_prod_def)
  qed
  have "inj_on ?k (set ?es)"
  proof (rule inj_onI)
    fix a b assume a: "a \<in> set ?es" and b: "b \<in> set ?es" and e: "?k a = ?k b"
    from a b have "a \<in> set ?ys" "b \<in> set ?ys" using my by (metis mset_eq_setD)+
    then obtain i j where ij: "i < length js" "j < length js" "a = (js ! i, out ! i)"
        "b = (js ! j, out ! j)"
      using js(1) by (auto simp: in_set_zip)
    from e ij have "tb (js ! i) = tb (js ! j)" by simp
    then have "i = j" using tbj ij by simp
    then show "a = b" using ij by simp
  qed
  from sort_key_inj_key_eq [OF my this sk] have "sort_key ?k ?es = ?ys" .
  then have "sort_values tb ranks_df = out" using js(1) by (simp add: sort_values_def)
  then show ?thesis by blast
qed

lemma valid_group_result:
  fixes g :: "'v chunk list"
  assumes "g \<noteq> []" "\<forall>c \<in> set g. embedding c \<noteq> None"
  shows "\<exists>X rs. those (map embedding g) = Some X \<and> None \<notin> set (map embedding g) \<and>
           rank_numbers (map (\<lambda>x. metric x q) X) = Inr rs \<and>
           pairwise_distances metric (map embedding g) (Some q) = Inr (map (\<lambda>x. metric x q) X)"
proof -
  have n: "\<forall>x \<in> set (map embedding g). x \<noteq> None" using assms(2) by auto
  from those_map_Some [OF n] obtain X where X: "those (map embedding g) = Some X" by blast
  obtain rs where rs: "rank_numbers (map (\<lambda>x. metric x q) X) = Inr rs"
    using rank_numbers_char [of "map (\<lambda>x. metric x q) X"] by blast
  have "pairwise_distances metric (map embedding g) (Some q) = Inr (map (\<lambda>x. metric x q) X)"
    using X assms(1) by (simp add: pairwise_distances_def)
  moreover have "None \<notin> set (map embedding g)" using n by auto
  ultimately show ?thesis using X rs by blast
qed






section \<open>The embedding pipeline does not depend on the pool's order\<close>

lemma retry_openai_stateless:
  "fst (retry_openai n (remote_call (\<lambda>i. v)) attempt w) =
   fst (retry_openai n (remote_call (\<lambda>i. v)) attempt w2)"
proof (induction "nat (n - int attempt)" arbitrary: attempt w w2 rule: less_induct)
  case less
  let ?f = "remote_call (\<lambda>i. v)"
  show ?case
  proof (cases v)
    case (Inr x)
    then have c: "\<And>u. ?f u = (Inr x, u\<lparr>provider_calls := Suc (provider_calls u)\<rparr>)"
      by (simp add: remote_call_def)
    show ?thesis
      using retry_openai_Inr [where func = ?f, OF c, of n attempt w]
        retry_openai_Inr [where func = ?f, OF c, of n attempt w2] by simp
  next
    case (Inl e)
    then have c: "\<And>u. ?f u = (Inl e, u\<lparr>provider_calls := Suc (provider_calls u)\<rparr>)"
      by (simp add: remote_call_def)
    show ?thesis
    proof (cases "retry_if_exception_type e")
      case False
      show ?thesis
        using retry_openai_fatal [where func = ?f, OF c False, of n attempt w]
          retry_openai_fatal [where func = ?f, OF c False, of n attempt w2] by simp
    next
      case True
      show ?thesis
      proof (cases "n \<le> int attempt")
        case True
        show ?thesis
          using retry_openai_stop [where func = ?f, OF c \<open>retry_if_exception_type e\<close> True, of w]
            retry_openai_stop [where func = ?f, OF c \<open>retry_if_exception_type e\<close> True, of w2]
          by simp
      next
        case False
        then have lt: "int attempt < n" by simp
        then have m: "nat (n - int (Suc attempt)) < nat (n - int attempt)" by simp
        have "retry_openai n ?f attempt w =
              retry_openai n ?f (Suc attempt) (w\<lparr>provider_calls := Suc (provider_calls w)\<rparr>)"
          by (rule retry_openai_again [where func = ?f, OF c True lt])
        moreover have "retry_openai n ?f attempt w2 =
              retry_openai n ?f (Suc attempt) (w2\<lparr>provider_calls := Suc (provider_calls w2)\<rparr>)"
          by (rule retry_openai_again [where func = ?f, OF c True lt])
        ultimately show ?thesis using less [OF m] by simp
      qed
    qed
  qed
qed

lemma get_openai_embedding_stateless:
  assumes "\<forall>i j input model. client i input model = client j input model"
  shows "fst (get_openai_embedding cfg client input model w) =
         fst (get_openai_embedding cfg client input model w2)"
proof -
  have e: "embeddings_create client input model = remote_call (\<lambda>i. client 0 input model)"
    unfolding embeddings_create_def using assms by (metis (no_types))
  have r: "fst (reexecutor n (remote_call (\<lambda>i. client 0 input model)) u) =
           fst (reexecutor n (remote_call (\<lambda>i. client 0 input model)) u2)" for n u u2
    using retry_openai_stateless [of n "client 0 input model" 1 u u2]
    by (simp add: reexecutor_def remote_call_def)
  show ?thesis
    unfolding get_openai_embedding_def Let_def e
    using r [of "retry_attempts cfg" "w\<lparr>embedding_calls := Suc (embedding_calls w)\<rparr>"
        "w2\<lparr>embedding_calls := Suc (embedding_calls w2)\<rparr>"]
    by (auto split: prod.splits sum.splits)
qed

lemma embed_chunks_stateless:
  assumes "\<forall>i j input model. client i input model = client j input model"
  shows "fst (embed_chunks cfg client model doc_id spans w) =
         fst (embed_chunks cfg client model doc_id spans w2)"
proof (induction spans arbitrary: w w2)
  case Nil
  then show ?case by simp
next
  case (Cons chunk rest)
  obtain r u where g1: "get_openai_embedding cfg client (span_content chunk) model w = (r, u)"
    by force
  obtain r2 u2 where g2: "get_openai_embedding cfg client (span_content chunk) model w2 = (r2, u2)"
    by force
  have rr: "r2 = r"
    using get_openai_embedding_stateless [OF assms, of cfg "span_content chunk" model w w2] g1 g2
    by simp
  obtain s v where e1: "embed_chunks cfg client model doc_id rest u = (s, v)" by force
  obtain s2 v2 where e2: "embed_chunks cfg client model doc_id rest u2 = (s2, v2)" by force
  have ss: "s2 = s" using Cons.IH [of u u2] e1 e2 by simp
  show ?case by (simp add: g1 g2 rr e1 e2 ss split: sum.splits)
qed

lemma split_embed_stateless:
  assumes "\<forall>i j input model. client i input model = client j input model"
  shows "fst (split_embed split_pmc_document cfg client article model min_chars max_chars w) =
         fst (split_embed split_pmc_document cfg client article model min_chars max_chars w2)"
  using embed_chunks_stateless [OF assms] by (simp add: split_embed_def Let_def)

lemma run_pool_futures:
  assumes "\<forall>i<length tasks. \<forall>u. fst ((tasks ! i) u) = res i"
    and "length futures = length tasks"
  shows "fst (run_pool tasks order futures w) =
           map (\<lambda>i. if futures ! i \<noteq> None then futures ! i
                     else if i \<in> set order then Some (res i) else None) [0..<length tasks]"
  using assms(2)
proof (induction order arbitrary: futures w)
  case Nil
  then show ?case by (auto intro: nth_equalityI)
next
  case (Cons i order)
  show ?case
  proof (cases "i < length tasks \<and> i < length futures \<and> futures ! i = None")
    case True
    obtain r u where t: "(tasks ! i) w = (r, u)" by force
    then have r: "r = res i" using assms(1) True by (metis fst_conv)
    have "fst (run_pool tasks (i # order) futures w) =
          fst (run_pool tasks order (futures[i := Some r]) u)"
      using True t by simp
    also have "\<dots> = map (\<lambda>j. if (futures[i := Some r]) ! j \<noteq> None then (futures[i := Some r]) ! j
                     else if j \<in> set order then Some (res j) else None) [0..<length tasks]"
      using Cons.IH [of "futures[i := Some r]" u] Cons.prems by simp
    also have "\<dots> = map (\<lambda>j. if futures ! j \<noteq> None then futures ! j
                     else if j \<in> set (i # order) then Some (res j) else None) [0..<length tasks]"
      using True Cons.prems r by (auto simp: nth_list_update)
    finally show ?thesis .
  next
    case False
    then have "fst (run_pool tasks (i # order) futures w) = fst (run_pool tasks order futures w)"
      by auto
    also have "\<dots> = map (\<lambda>j. if futures ! j \<noteq> None then futures ! j
                     else if j \<in> set order then Some (res j) else None) [0..<length tasks]"
      using Cons.IH [of futures w] Cons.prems by simp
    also have "\<dots> = map (\<lambda>j. if futures ! j \<noteq> None then futures ! j
                     else if j \<in> set (i # order) then Some (res j) else None) [0..<length tasks]"
      using False Cons.prems by auto
    finally show ?thesis .
  qed
qed

lemma gather_results_all_done:
  "\<exists>r. gather_results (map (\<lambda>x. Some (f x)) xs) = Some r \<and>
       (\<forall>chunkss. list_all2 (\<lambda>x cs. f x = Inr cs) xs chunkss \<longrightarrow> r = Inr (concat chunkss))"
proof (induction xs)
  case Nil
  then show ?case by simp
next
  case (Cons x xs)
  then obtain r where r: "gather_results (map (\<lambda>x. Some (f x)) xs) = Some r"
    "\<forall>chunkss. list_all2 (\<lambda>x cs. f x = Inr cs) xs chunkss \<longrightarrow> r = Inr (concat chunkss)"
    by blast
  show ?case
  proof (cases "f x")
    case (Inl e)
    then show ?thesis by (auto simp: list_all2_Cons1)
  next
    case (Inr cs)
    then show ?thesis using r by (cases r) (auto simp: list_all2_Cons1)
  qed
qed

lemma embed_pmc_articles_result:
  assumes st: "\<forall>i j input model. client i input model = client j input model"
    and nw: "0 < num_workers" and ord: "{..<length articles} \<subseteq> set order"
  shows "fst (embed_pmc_articles split_pmc_document cfg client articles model min_chars max_chars
                num_workers order w) =
         gather_results (map (\<lambda>article. Some (fst (split_embed split_pmc_document cfg client
                          article model min_chars max_chars w0))) articles)"
proof -
  let ?T = "\<lambda>article. split_embed split_pmc_document cfg client article model min_chars max_chars"
  let ?tasks = "map ?T articles"
  let ?n = "length articles"
  have res: "\<forall>i<length ?tasks. \<forall>u. fst ((?tasks ! i) u) = fst (?T (articles ! i) w0)"
    using split_embed_stateless [OF st] by simp
  have len: "length (replicate ?n (None :: (exn + 'a chunk list) option)) = length ?tasks"
    by simp
  note rp = run_pool_futures [of ?tasks "\<lambda>i. fst (?T (articles ! i) w0)"
      "replicate ?n (None :: (exn + 'a chunk list) option)" order w, OF res len]
  have m: "map (\<lambda>i. if replicate ?n (None :: (exn + 'a chunk list) option) ! i \<noteq> None
                    then replicate ?n None ! i
                  else if i \<in> set order then Some (fst (?T (articles ! i) w0)) else None)
            [0..<length ?tasks] = map (\<lambda>article. Some (fst (?T article w0))) articles"
  proof (rule nth_equalityI)
    show "length (map (\<lambda>i. if replicate ?n (None :: (exn + 'a chunk list) option) ! i \<noteq> None
                    then replicate ?n None ! i
                  else if i \<in> set order then Some (fst (?T (articles ! i) w0)) else None)
            [0..<length ?tasks]) = length (map (\<lambda>article. Some (fst (?T article w0))) articles)"
      by simp
  next
    fix i assume "i < length (map (\<lambda>i. if replicate ?n (None :: (exn + 'a chunk list) option) ! i \<noteq> None
                    then replicate ?n None ! i
                  else if i \<in> set order then Some (fst (?T (articles ! i) w0)) else None)
            [0..<length ?tasks])"
    then have i: "i < ?n" by simp
    then have "i \<in> set order" using ord by auto
    with i show "map (\<lambda>i. if replicate ?n (None :: (exn + 'a chunk list) option) ! i \<noteq> None
                    then replicate ?n None ! i
                  else if i \<in> set order then Some (fst (?T (articles ! i) w0)) else None)
            [0..<length ?tasks] ! i = map (\<lambda>article. Some (fst (?T article w0))) articles ! i"
      by simp
  qed
  have "fst (run_pool ?tasks order (replicate ?n None) w) =
        map (\<lambda>article. Some (fst (?T article w0))) articles"
    using rp unfolding m .
  moreover obtain futures u where ru: "run_pool ?tasks order (replicate ?n None) w = (futures, u)"
    by force
  ultimately have "gather_results futures =
      gather_results (map (\<lambda>article. Some (fst (?T article w0))) articles)"
    by simp
  then show ?thesis
    using nw unfolding embed_pmc_articles_def by (simp add: ru)
qed


text \<open>
  Claim C7. For a provider whose reply depends on the request only, the list returned
  by \<^verbatim>\<open>embed_pmc_articles\<close> is the same with one worker and with eight workers, in
  whatever order the eight run the documents: the call returns, and when every
  document's chunks are embedded without an exception the result is the chunk lists of
  the documents in submission order, concatenated.
\<close>

theorem embed_pmc_articles_order_invariant:
  assumes st: "\<forall>i j input model. client i input model = client j input model"
    and o1: "pool_order 1 (length articles) order1"
    and o8: "pool_order 8 (length articles) order8"
  shows "fst (embed_pmc_articles split_pmc_document cfg client articles model min_chars max_chars
                8 order8 w) =
         fst (embed_pmc_articles split_pmc_document cfg client articles model min_chars max_chars
                1 order1 w) \<and>
         (\<exists>r. fst (embed_pmc_articles split_pmc_document cfg client articles model min_chars
                     max_chars 8 order8 w) = Some r \<and>
            (\<forall>chunkss.
               list_all2 (\<lambda>article chunks.
                   fst (split_embed split_pmc_document cfg client article model min_chars
                          max_chars w) = Inr chunks) articles chunkss \<longrightarrow>
               r = Inr (concat chunkss)))"
proof -
  let ?G = "gather_results (map (\<lambda>article. Some (fst (split_embed split_pmc_document cfg client
      article model min_chars max_chars w))) articles)"
  from o1 have "set order1 = {..<length articles}" unfolding pool_order_def by (elim conjE)
  then have s1: "{..<length articles} \<subseteq> set order1" by (rule equalityD2)
  from o8 have "set order8 = {..<length articles}" unfolding pool_order_def by (elim conjE)
  then have s8: "{..<length articles} \<subseteq> set order8" by (rule equalityD2)
  have p1: "(0::int) < 1" and p8: "(0::int) < 8" by simp_all
  have r1: "fst (embed_pmc_articles split_pmc_document cfg client articles model min_chars
      max_chars 1 order1 w) = ?G"
    by (rule embed_pmc_articles_result [where ?w0.0 = w, OF st p1 s1])
  have r8: "fst (embed_pmc_articles split_pmc_document cfg client articles model min_chars
      max_chars 8 order8 w) = ?G"
    by (rule embed_pmc_articles_result [where ?w0.0 = w, OF st p8 s8])
  note ga = gather_results_all_done [of "\<lambda>article. fst (split_embed split_pmc_document cfg client
      article model min_chars max_chars w)" articles]
  from ga obtain r where r: "?G = Some r"
    "\<forall>chunkss. list_all2 (\<lambda>article chunks.
        fst (split_embed split_pmc_document cfg client article model min_chars
               max_chars w) = Inr chunks) articles chunkss \<longrightarrow> r = Inr (concat chunkss)"
    by (elim exE conjE)
  show ?thesis unfolding r1 r8 using r by (intro conjI exI [of _ r]) simp_all
qed


section \<open>Calls issued and order of the returned table\<close>


lemma retry_openai_world:
  "retry_openai n (remote_call script) attempt w = (r, w') \<Longrightarrow>
   embedding_calls w' = embedding_calls w \<and> warnings w' = warnings w \<and>
   provider_calls w < provider_calls w'"
proof (induction "nat (n - int attempt)" arbitrary: attempt w rule: less_induct)
  case less
  let ?f = "remote_call script"
  let ?w = "w\<lparr>provider_calls := Suc (provider_calls w)\<rparr>"
  show ?case
  proof (cases "script (provider_calls w)")
    case (Inr v)
    then have "?f w = (Inr v, ?w)" by (simp add: remote_call_def)
    from retry_openai_Inr [where func = ?f, OF this, of n attempt] less.prems
    show ?thesis by auto
  next
    case (Inl e)
    then have c: "?f w = (Inl e, ?w)" by (simp add: remote_call_def)
    show ?thesis
    proof (cases "retry_if_exception_type e")
      case False
      from retry_openai_fatal [where func = ?f, OF c False, of n attempt] less.prems
      show ?thesis by auto
    next
      case True
      show ?thesis
      proof (cases "n \<le> int attempt")
        case True
        from retry_openai_stop [where func = ?f, OF c \<open>retry_if_exception_type e\<close> True] less.prems
        show ?thesis by auto
      next
        case False
        then have lt: "int attempt < n" by simp
        then have m: "nat (n - int (Suc attempt)) < nat (n - int attempt)" by simp
        have "retry_openai n ?f (Suc attempt) ?w = (r, w')"
          using retry_openai_again [where func = ?f, OF c True lt] less.prems by simp
        from less.hyps [OF m this] show ?thesis by simp
      qed
    qed
  qed
qed

lemma reexecutor_world:
  "reexecutor n (remote_call script) w = (r, w') \<Longrightarrow>
   embedding_calls w' = embedding_calls w \<and> warnings w' = warnings w \<and>
   provider_calls w < provider_calls w'"
proof (cases "n > 1")
  case True
  assume "reexecutor n (remote_call script) w = (r, w')"
  with True have "retry_openai n (remote_call script) 1 w = (r, w')"
    by (simp only: reexecutor_def if_True)
  then show ?thesis by (rule retry_openai_world)
next
  case False
  assume "reexecutor n (remote_call script) w = (r, w')"
  with False have "remote_call script w = (r, w')"
    by (simp only: reexecutor_def if_False)
  then show ?thesis by (auto simp: remote_call_def)
qed

lemma get_openai_embedding_calls:
  assumes "get_openai_embedding cfg client input model w = (r, w')"
  shows "embedding_calls w' = Suc (embedding_calls w)" "provider_calls w < provider_calls w'"
proof -
  let ?w = "w\<lparr>embedding_calls := Suc (embedding_calls w)\<rparr>"
  obtain r0 u where re: "reexecutor (retry_attempts cfg) (remote_call (\<lambda>i. client i input model)) ?w
      = (r0, u)" by force
  from reexecutor_world [OF re] have u: "embedding_calls u = Suc (embedding_calls w)"
    "provider_calls w < provider_calls u" by simp_all
  from assms re have "w' = u \<or> w' = u\<lparr>warnings := warnings u @ [projl r0]\<rparr>"
    by (auto simp: get_openai_embedding_def embeddings_create_def Let_def split: sum.splits if_splits)
  with u show "embedding_calls w' = Suc (embedding_calls w)" "provider_calls w < provider_calls w'"
    by auto
qed

text \<open>embed.py: the query is embedded by exactly one call, whatever the table.\<close>
lemma embed_get_chunk_query_distance_one_call:
  "embedding_calls (snd (embed_get_chunk_query_distance cfg client euclidean tie_break df query
       model w)) = Suc (embedding_calls w)"
proof -
  obtain r u where g: "get_openai_embedding cfg client query model w = (r, u)" by force
  have "snd (embed_get_chunk_query_distance cfg client euclidean tie_break df query model w) = u"
    by (simp add: embed_get_chunk_query_distance_def g split: sum.splits prod.splits)
  with get_openai_embedding_calls(1) [OF g] show ?thesis by simp
qed

text \<open>
  A task of query.py on a group mixing vectors and \<^verbatim>\<open>None\<close> is over before the query is
  embedded; on every other group it embeds the query once.
\<close>

lemma query_query_embeddings_mixed:
  "None \<in> set embs \<Longrightarrow> list_ex (\<lambda>x. x \<noteq> None) embs \<Longrightarrow>
   query_query_embeddings cfg client euclidean cosine embs query metric w = (Inl ValueError, w)"
  by (simp add: query_query_embeddings_def np_array_def)

lemma query_query_embeddings_calls:
  assumes "None \<notin> set embs"
    and "query_query_embeddings cfg client euclidean cosine embs query metric w = (r, w')"
  shows "embedding_calls w' = Suc (embedding_calls w)" "provider_calls w < provider_calls w'"
proof -
  obtain r0 u where g: "get_openai_embedding cfg client query ''text-embedding-ada-002'' w = (r0, u)"
    by force
  have "snd (query_query_embeddings cfg client euclidean cosine embs query metric w) = u"
    using assms(1)
    by (simp add: query_query_embeddings_def np_array_present g split: sum.splits prod.splits)
  with assms(2) have "w' = u" by simp
  with get_openai_embedding_calls [OF g]
  show "embedding_calls w' = Suc (embedding_calls w)" "provider_calls w < provider_calls w'"
    by simp_all
qed

lemma run_in_order_calls:
  assumes "\<And>x u r u'. x \<in> set xs \<Longrightarrow> task x u = (r, u') \<Longrightarrow>
             embedding_calls u' = Suc (embedding_calls u)"
  shows "embedding_calls (snd (run_in_order task xs w)) = embedding_calls w + length xs"
  using assms
proof (induction xs arbitrary: w)
  case Nil
  then show ?case by simp
next
  case (Cons x xs)
  obtain r u where t: "task x w = (r, u)" by force
  obtain rs u' where ro: "run_in_order task xs u = (rs, u')" by force
  have "embedding_calls (snd (run_in_order task xs u)) = embedding_calls u + length xs"
    by (rule Cons.IH) (auto intro: Cons.prems)
  moreover have "embedding_calls u = Suc (embedding_calls w)"
    using Cons.prems [of x w r u] t by simp
  ultimately show ?case by (simp add: t ro)
qed

text \<open>
  query.py: one call of the embedding client per document group, on every table whose
  chunks all have an embedding.
\<close>
lemma query_get_chunk_query_distance_calls:
  fixes df :: "'v chunk list"
  assumes "0 < num_workers" and emb: "\<forall>c \<in> set df. embedding c \<noteq> None"
  shows "embedding_calls (snd (query_get_chunk_query_distance cfg client euclidean cosine df
            query num_workers w)) = embedding_calls w + length (groupby_pmcid df)"
proof -
  let ?task = "\<lambda>(_ :: string, sub_df :: 'v chunk list).
      query_query_embeddings cfg client euclidean cosine (map embedding sub_df) query ''euclidean''"
  obtain futures u where ro: "run_in_order ?task (groupby_pmcid df) w = (futures, u)" by force
  have "snd (query_get_chunk_query_distance cfg client euclidean cosine df query num_workers w) = u"
    using assms(1)
    by (simp add: query_get_chunk_query_distance_def ro split: sum.splits prod.splits)
  moreover have "embedding_calls (snd (run_in_order ?task (groupby_pmcid df) w)) =
      embedding_calls w + length (groupby_pmcid df)"
  proof (rule run_in_order_calls)
    fix x :: "string \<times> 'v chunk list" and u r u'
    assume x: "x \<in> set (groupby_pmcid df)" and t: "?task x u = (r, u')"
    obtain k g where kg: "x = (k, g)" by (cases x)
    from groups_nonempty [of k g df] x kg have "set g \<subseteq> set df" by simp
    then have "\<forall>c \<in> set g. embedding c \<noteq> None" using emb by auto
    then have "None \<notin> set (map embedding g)" by (induction g) auto
    from query_query_embeddings_calls(1) [OF this] t kg
    show "embedding_calls u' = Suc (embedding_calls u)" by simp
  qed
  ultimately show ?thesis by (simp add: ro)
qed

text \<open>embed.py: a returned table is sorted by distance.\<close>
lemma embed_get_chunk_query_distance_sorted:
  "embed_get_chunk_query_distance cfg client euclidean tie_break df query model w =
     (Inr out, w') \<Longrightarrow> sorted (map distance out)"
  by (auto simp: embed_get_chunk_query_distance_def sorted_sort_values
      split: sum.splits prod.splits)

section \<open>The example inputs, evaluated\<close>


lemma query_two_documents:
  "query_get_chunk_query_distance default_config origin_client squared_difference
      squared_difference two_documents ''q'' 1 fresh_world =
    (Inr [example_row ''A'' ''a0'' 9 1, example_row ''A'' ''a1'' 1 0,
          example_row ''B'' ''b0'' 4 1, example_row ''B'' ''b1'' 0 0],
     \<lparr>provider_calls = 2, embedding_calls = 2, warnings = []\<rparr>)"
  by (simp add: eval_defs)

lemma query_interleaved_documents:
  "query_get_chunk_query_distance default_config origin_client squared_difference
      squared_difference interleaved_documents ''q'' 1 fresh_world =
    (Inr [example_row ''A'' ''a0'' 9 1, example_row ''B'' ''b0'' 1 0,
          example_row ''A'' ''a1'' 4 1, example_row ''B'' ''b1'' 0 0],
     \<lparr>provider_calls = 2, embedding_calls = 2, warnings = []\<rparr>)"
  by (simp add: eval_defs)

lemma example_tables_contiguity:
  "contiguous (map pmcid two_documents)" "\<not> contiguous (map pmcid interleaved_documents)"
  by (simp_all add: contiguous_def eval_defs)


text \<open>Two rows at the same distance come out in either order, as \<open>tie_break\<close> has it.\<close>
lemma sort_values_tie_orders:
  "sort_values (\<lambda>i. i) [example_row ''A'' ''a0'' 1 0, example_row ''B'' ''b0'' 1 0] =
     [example_row ''A'' ''a0'' 1 0, example_row ''B'' ''b0'' 1 0]"
  "sort_values (\<lambda>i. 1 - i) [example_row ''A'' ''a0'' 1 0, example_row ''B'' ''b0'' 1 0] =
     [example_row ''B'' ''b0'' 1 0, example_row ''A'' ''a0'' 1 0]"
  by (simp_all add: sort_values_def enumerate_eq_zip example_row_def)

section \<open>The query engine returns on valid tables\<close>

text \<open>
  embed.py returns a table of as many rows as the input, sorted by distance, whenever
  the table is not empty, every chunk has an embedding and the query is embedded.
\<close>
lemma embed_get_chunk_query_distance_returns:
  fixes df :: "'v chunk list"
  assumes ne: "df \<noteq> []" and emb: "\<forall>c \<in> set df. embedding c \<noteq> None"
    and g: "get_openai_embedding cfg client query model w = (Inr (Some q), w')"
  shows "\<exists>out. embed_get_chunk_query_distance cfg client euclidean tie_break df query model w =
            (Inr out, w') \<and> length out = length df \<and> sorted (map distance out)"
proof -
  let ?f = "\<lambda>(_ :: string, sub_df :: 'v chunk list).
      embed_query_embeddings euclidean (map embedding sub_df) (Some q)"
  let ?P = "\<lambda>kg res. length (fst res) = length (snd kg) \<and> length (snd res) = length (snd kg)"
  have "\<forall>kg \<in> set (groupby_pmcid df). \<exists>res. ?f kg = Inr res \<and> ?P kg res"
  proof
    fix kg assume kg: "kg \<in> set (groupby_pmcid df)"
    obtain k gr where kgd: "kg = (k, gr)" by (cases kg)
    from groups_nonempty [of k gr df] kg kgd have gne: "gr \<noteq> []" and sub: "set gr \<subseteq> set df"
      by simp_all
    have "\<forall>c \<in> set gr. embedding c \<noteq> None" using emb sub by auto
    from valid_group_result [OF gne this, of euclidean q]
    obtain X rs where v: "those (map embedding gr) = Some X" "None \<notin> set (map embedding gr)"
      "rank_numbers (map (\<lambda>x. euclidean x q) X) = Inr rs"
      "pairwise_distances euclidean (map embedding gr) (Some q) = Inr (map (\<lambda>x. euclidean x q) X)"
      by blast
    have lx: "length X = length gr" using length_those [OF v(1)] by simp
    have lr: "length rs = length X" using rank_numbers_length [OF v(3)] by simp
    have "?f kg = Inr (map (\<lambda>x. euclidean x q) X, rs)"
      using v by (simp add: kgd embed_query_embeddings_def np_array_present)
    then show "\<exists>res. ?f kg = Inr res \<and> ?P kg res" using lx lr by (simp add: kgd)
  qed
  from collect_total [where f = ?f and P = ?P, OF this]
  obtain results where co: "collect ?f (groupby_pmcid df) = Inr results"
    and la: "list_all2 ?P (groupby_pmcid df) results" by blast
  have "groupby_pmcid df \<noteq> []" using ne by (cases df) (simp_all add: groupby_pmcid_def)
  with la have rne: "results \<noteq> []" by (cases results) auto
  have la': "list_all2 (\<lambda>g res. length (fst res) = length g \<and> length (snd res) = length g)
      (map snd (groupby_pmcid df)) results"
    using la by (simp add: list_all2_map1)
  have l1: "length (concat (map fst results)) = length df"
  proof -
    have "length (concat (map fst results)) = length (concat (map snd (groupby_pmcid df)))"
      using la' by (induction rule: list_all2_induct) simp_all
    then show ?thesis by (simp add: length_groupby_pmcid)
  qed
  have l2: "length (concat (map snd results)) = length df"
  proof -
    have "length (concat (map snd results)) = length (concat (map snd (groupby_pmcid df)))"
      using la' by (induction rule: list_all2_induct) simp_all
    then show ?thesis by (simp add: length_groupby_pmcid)
  qed
  obtain ranks_df where a: "assemble df (concat (map fst results)) (concat (map snd results)) =
      Inr ranks_df" "length ranks_df = length df"
    using l1 l2 by (simp add: assemble_def)
  have "embed_get_chunk_query_distance cfg client euclidean tie_break df query model w =
      (Inr (sort_values tie_break ranks_df), w')"
    using g co rne a(1) by (simp add: embed_get_chunk_query_distance_def unzip_results_def)
  moreover have "length (sort_values tie_break ranks_df) = length df"
    using a(2) by (simp add: sort_values_def)
  ultimately show ?thesis using sorted_sort_values [of tie_break ranks_df] by simp
qed

section \<open>Chunks without an embedding\<close>

lemma group_of_member:
  "c \<in> set df \<Longrightarrow> (pmcid c, filter (\<lambda>r. pmcid r = pmcid c) df) \<in> set (groupby_pmcid df)"
  by (simp add: groupby_pmcid_def set_unique image_iff) blast

lemma pairwise_distances_missing:
  "None \<in> set embeddings \<Longrightarrow> pairwise_distances metric embeddings qe = Inl ValueError"
  by (simp add: pairwise_distances_def those_None_iff [symmetric] split: option.splits)

lemma run_in_order_failed_future:
  "x \<in> set xs \<Longrightarrow> \<forall>u. isl (fst (task x u)) \<Longrightarrow>
   \<exists>future \<in> set (fst (run_in_order task xs w)). isl future"
proof (induction xs arbitrary: w)
  case Nil
  then show ?case by simp
next
  case (Cons y ys)
  obtain r u where t: "task y w = (r, u)" by force
  obtain rs u' where ro: "run_in_order task ys u = (rs, u')" by force
  show ?case
  proof (cases "x = y")
    case True
    with Cons.prems(2) t have "isl r" by (metis fst_conv)
    then show ?thesis by (simp add: t ro)
  next
    case False
    with Cons.prems have "x \<in> set ys" by simp
    from Cons.IH [OF this Cons.prems(2), of u] ro show ?thesis by (auto simp: t)
  qed
qed

lemma embed_missing_embedding:
  fixes df :: "'v chunk list"
  assumes "c \<in> set df" "embedding c = None"
  shows "isl (fst (embed_get_chunk_query_distance cfg client euclidean tie_break df query
                     model w))"
proof -
  obtain r u where g: "get_openai_embedding cfg client query model w = (r, u)" by force
  show ?thesis
  proof (cases r)
    case (Inl e)
    then show ?thesis by (simp add: embed_get_chunk_query_distance_def g)
  next
    case (Inr qe)
    let ?f = "\<lambda>(_ :: string, sub_df :: 'v chunk list).
        embed_query_embeddings euclidean (map embedding sub_df) qe"
    let ?g = "filter (\<lambda>r. pmcid r = pmcid c) df"
    have "c \<in> set ?g" using assms(1) by simp
    then have "embedding c \<in> embedding ` set ?g" by (rule imageI)
    then have "embedding c \<in> set (map embedding ?g)" by (simp only: set_map)
    then have "None \<in> set (map embedding ?g)" using assms(2) by simp
    then have "isl (?f (pmcid c, ?g))"
      by (auto simp: embed_query_embeddings_def np_array_def pairwise_distances_missing)
    with group_of_member [OF assms(1)] have "isl (collect ?f (groupby_pmcid df))"
      by (rule collect_isl [where f = ?f])
    then obtain e where "collect ?f (groupby_pmcid df) = Inl e" by (cases "collect ?f (groupby_pmcid df)") simp_all
    then show ?thesis by (simp add: embed_get_chunk_query_distance_def g Inr)
  qed
qed

lemma query_query_embeddings_missing:
  "None \<in> set embs \<Longrightarrow>
   isl (fst (query_query_embeddings cfg client euclidean cosine embs query ''euclidean'' u))"
  by (auto simp: query_query_embeddings_def np_array_def pairwise_distances_missing
      split: prod.splits sum.splits)

lemma query_missing_embedding:
  fixes df :: "'v chunk list"
  assumes "c \<in> set df" "embedding c = None"
  shows "isl (fst (query_get_chunk_query_distance cfg client euclidean cosine df query
                     num_workers w))"
proof (cases "num_workers \<le> 0")
  case True
  then show ?thesis by (simp add: query_get_chunk_query_distance_def)
next
  case False
  let ?task = "\<lambda>(_ :: string, sub_df :: 'v chunk list).
      query_query_embeddings cfg client euclidean cosine (map embedding sub_df) query ''euclidean''"
  let ?g = "filter (\<lambda>r. pmcid r = pmcid c) df"
  obtain futures u where ro: "run_in_order ?task (groupby_pmcid df) w = (futures, u)" by force
  have "c \<in> set ?g" using assms(1) by simp
  then have "embedding c \<in> embedding ` set ?g" by (rule imageI)
    then have "embedding c \<in> set (map embedding ?g)" by (simp only: set_map)
  then have "None \<in> set (map embedding ?g)" using assms(2) by simp
  then have "\<forall>u. isl (fst (?task (pmcid c, ?g) u))"
    by (simp add: query_query_embeddings_missing)
  with group_of_member [OF assms(1)]
  have "\<exists>future \<in> set (fst (run_in_order ?task (groupby_pmcid df) w)). isl future"
    by (rule run_in_order_failed_future [where task = ?task])
  then obtain future where fu: "future \<in> set futures" "isl future" by (simp add: ro) blast
  have "isl (collect (\<lambda>future. future) futures)"
    using fu by (rule collect_isl [where f = "\<lambda>future. future"])
  then obtain e where "collect (\<lambda>future. future) futures = Inl e"
    by (cases "collect (\<lambda>future. future) futures") simp_all
  with False show ?thesis by (simp add: query_get_chunk_query_distance_def ro)
qed

text \<open>
  Claim C4, as amended. For every table that holds a chunk whose embedding is missing,
  \<^verbatim>\<open>get_chunk_query_distance\<close> (of \<^verbatim>\<open>search/embed.py\<close> and of \<^verbatim>\<open>search/query.py\<close>) ends
  with an exception: no table is returned, so no chunk is ranked, and the chunks without
  an embedding are neither filtered out nor reported apart.
\<close>

theorem missing_embedding_raises:
  fixes df :: "'v chunk list"
  assumes "c \<in> set df" "embedding c = None"
  shows "isl (fst (embed_get_chunk_query_distance cfg client euclidean tie_break df query
                     model w)) \<and>
         isl (fst (query_get_chunk_query_distance cfg client euclidean cosine df query
                     num_workers w))"
proof (rule conjI)
  show "isl (fst (embed_get_chunk_query_distance cfg client euclidean tie_break df query
                     model w))"
    using assms by (rule embed_missing_embedding)
  show "isl (fst (query_get_chunk_query_distance cfg client euclidean cosine df query
                     num_workers w))"
    using assms by (rule query_missing_embedding)
qed

section \<open>Alignment of the returned rows\<close>






section \<open>Instances\<close>

text \<open>
  In fail-soft mode, a table of one document with one embedded and one omitted chunk:
  both query engines raise instead of ranking the embedded chunk and setting the other
  apart.
\<close>

theorem missing_embedding_counterexample:
  "fst (embed_get_chunk_query_distance \<lparr>retry_attempts = 50, warn_on_failure = Some ''1''\<rparr>
          origin_client squared_difference (\<lambda>i. i) omitted_chunk_table ''q'' ''m'' fresh_world) =
     Inl ValueError \<and>
   fst (query_get_chunk_query_distance \<lparr>retry_attempts = 50, warn_on_failure = Some ''1''\<rparr>
          origin_client squared_difference squared_difference omitted_chunk_table ''q'' 1
          fresh_world) =
     Inl ValueError"
  by (simp add: eval_defs)

theorem missing_embedding_raises_witness:
  "example_chunk ''A'' ''a1'' None \<in> set omitted_chunk_table \<and>
   embedding (example_chunk ''A'' ''a1'' None) = None \<and>
   isl (fst (embed_get_chunk_query_distance default_config origin_client squared_difference
               (\<lambda>i. i) omitted_chunk_table ''q'' ''m'' fresh_world)) \<and>
   isl (fst (query_get_chunk_query_distance default_config origin_client squared_difference
               squared_difference omitted_chunk_table ''q'' 1 fresh_world))"
proof -
  have m: "example_chunk ''A'' ''a1'' None \<in> set omitted_chunk_table"
    by (simp add: omitted_chunk_table_def)
  have n: "embedding (example_chunk ''A'' ''a1'' None) = None"
    by (simp add: example_chunk_def)
  from missing_embedding_raises [OF m n, where cfg = default_config and client = origin_client
      and euclidean = squared_difference and cosine = squared_difference
      and tie_break = "\<lambda>i. i" and query = "''q''" and model = "''m''" and w = fresh_world
      and num_workers = 1] m n
  show ?thesis by simp
qed




text \<open>Without contiguity the positional assignment gives a row another row's numbers.\<close>
lemma interleaved_rows_misaligned:
  "\<not> contiguous (map pmcid interleaved_documents) \<and>
   fst (query_get_chunk_query_distance default_config origin_client squared_difference
          squared_difference interleaved_documents ''q'' 1 fresh_world) =
     Inr [example_row ''A'' ''a0'' 9 1, example_row ''B'' ''b0'' 1 0,
          example_row ''A'' ''a1'' 4 1, example_row ''B'' ''b1'' 0 0] \<and>
   squared_difference 2 0 \<noteq> 1"
  by (simp add: query_interleaved_documents)
    (simp add: contiguous_def interleaved_documents_def example_chunk_def squared_difference_def)

text \<open>
  Claim C2, at the input where \<^verbatim>\<open>search/query.py\<close> departs from it: for a table of two
  document groups its \<^verbatim>\<open>get_chunk_query_distance\<close> enters \<^verbatim>\<open>get_openai_embedding\<close> twice
  and issues two provider requests for the one query (one per group on every table whose
  chunks all have an embedding, see \<open>query_get_chunk_query_distance_calls\<close>), where the
  claim has exactly one, as
  \<^verbatim>\<open>search/embed.py\<close> does (\<open>embed_get_chunk_query_distance_one_call\<close>).
\<close>

theorem query_py_embeds_query_per_group:
  "length (groupby_pmcid two_documents) = 2 \<and>
   embedding_calls (snd (query_get_chunk_query_distance default_config origin_client
      squared_difference squared_difference two_documents ''q'' 1 fresh_world)) = 2 \<and>
   provider_calls (snd (query_get_chunk_query_distance default_config origin_client
      squared_difference squared_difference two_documents ''q'' 1 fresh_world)) = 2"
  by (simp add: query_two_documents)
    (simp add: groupby_pmcid_def two_documents_def example_chunk_def)

text \<open>
  Claim C3, at the input where \<^verbatim>\<open>search/query.py\<close> departs from it: its
  \<^verbatim>\<open>get_chunk_query_distance\<close> returns the rows in table order, here with the distances
  9, 1, 4, 0, which is not ascending. The table of \<^verbatim>\<open>search/embed.py\<close> is sorted
  (\<open>embed_get_chunk_query_distance_sorted\<close>).
\<close>

theorem query_py_table_not_sorted:
  "fst (query_get_chunk_query_distance default_config origin_client squared_difference
          squared_difference two_documents ''q'' 1 fresh_world) =
     Inr [example_row ''A'' ''a0'' 9 1, example_row ''A'' ''a1'' 1 0,
          example_row ''B'' ''b0'' 4 1, example_row ''B'' ''b1'' 0 0] \<and>
   \<not> sorted (map distance
        [example_row ''A'' ''a0'' 9 1, example_row ''A'' ''a1'' 1 0,
         example_row ''B'' ''b0'' 4 1, example_row ''B'' ''b1'' 0 0])"
  by (simp add: query_two_documents) (simp add: example_row_def)

lemma query_query_embeddings_invalid_metric:
  assumes "distance_metric \<noteq> ''euclidean''" "distance_metric \<noteq> ''cosine''"
    and "None \<notin> set embeddings"
  shows "isl (fst (query_query_embeddings cfg client euclidean cosine embeddings query
                     distance_metric w)) \<and>
         provider_calls w <
           provider_calls (snd (query_query_embeddings cfg client euclidean cosine embeddings
                                  query distance_metric w))"
proof -
  obtain r u where q: "query_query_embeddings cfg client euclidean cosine embeddings query
      distance_metric w = (r, u)" by force
  from query_query_embeddings_calls(2) [OF assms(3) q] have "provider_calls w < provider_calls u" .
  moreover have "isl r"
    using q assms
    by (auto simp: query_query_embeddings_def np_array_present split: prod.splits sum.splits)
  ultimately show ?thesis by (simp add: q)
qed

text \<open>
  Claim C8, at an input where the code departs from it: with the metric
  \<^verbatim>\<open>"manhattan"\<close>, \<^verbatim>\<open>query_embeddings\<close> of \<^verbatim>\<open>search/query.py\<close> first embeds the query (one
  provider request is issued) and only then fails, with \<open>UnboundLocalError\<close>. For every
  other invalid metric, and every list of embeddings that numpy accepts, see
  \<open>query_query_embeddings_invalid_metric\<close>.
\<close>

theorem invalid_metric_fails_after_remote_call:
  "query_query_embeddings default_config origin_client squared_difference squared_difference
      [Some 3] ''q'' ''manhattan'' fresh_world =
    (Inl UnboundLocalError, \<lparr>provider_calls = 1, embedding_calls = 1, warnings = []\<rparr>)"
  by (simp add: eval_defs)

lemma pool_order_examples:
  "pool_order 1 (length two_articles) [0, 1]" "pool_order 8 (length two_articles) [1, 0]"
  by (simp_all add: pool_order_def two_articles_def lessThan_Suc insert_commute)

theorem embed_pmc_articles_order_invariant_witness:
  "fst (embed_pmc_articles whole_text_split default_config length_client two_articles ''m''
          5 4000 8 [1, 0] fresh_world) =
   fst (embed_pmc_articles whole_text_split default_config length_client two_articles ''m''
          5 4000 1 [0, 1] fresh_world) \<and>
   fst (embed_pmc_articles whole_text_split default_config length_client two_articles ''m''
          5 4000 8 [1, 0] fresh_world) =
     Some (Inr [\<lparr>pmcid = ''A'', content = ''short sentence.'', start_char = 0, end_char = 15,
                  embedding = Some 15\<rparr>,
                \<lparr>pmcid = ''B'', content = ''another one'', start_char = 0, end_char = 11,
                  embedding = Some 11\<rparr>])"
proof -
  have st: "\<forall>i j input model. length_client i input model = length_client j input model"
    by (simp add: length_client_def)
  from embed_pmc_articles_order_invariant [OF st pool_order_examples, of whole_text_split
      default_config "''m''" 5 4000 fresh_world]
  have "fst (embed_pmc_articles whole_text_split default_config length_client two_articles ''m''
          5 4000 8 [1, 0] fresh_world) =
   fst (embed_pmc_articles whole_text_split default_config length_client two_articles ''m''
          5 4000 1 [0, 1] fresh_world)" by (rule conjunct1)
  moreover have "fst (embed_pmc_articles whole_text_split default_config length_client
          two_articles ''m'' 5 4000 1 [0, 1] fresh_world) =
     Some (Inr [\<lparr>pmcid = ''A'', content = ''short sentence.'', start_char = 0, end_char = 15,
                  embedding = Some 15\<rparr>,
                \<lparr>pmcid = ''B'', content = ''another one'', start_char = 0, end_char = 11,
                  embedding = Some 11\<rparr>])"
    by (simp add: embed_pmc_articles_def split_embed_def whole_text_split_def two_articles_def
        length_client_def eval_defs)
  ultimately show ?thesis by simp
qed

end
